theory Spec2Isabelle
  imports Complex_Main "HOL-Library.Log_Nat"
begin

section \<open>Python numbers\<close>

text \<open>
  The calculators of \<^verbatim>\<open>tax_calculator.py\<close> receive Python integers (the form fields of
  \<^verbatim>\<open>main.py\<close> are integer inputs) and multiply them by float literals, so every tax figure
  is a Python float: an IEEE 754 binary64 number, each operation rounded to nearest, ties to
  even. Integers are unbounded (\<^typ>\<open>int\<close>); a finite float is modelled by its exact rational
  value. The sign of a zero is not modelled: no operation used here tells \<^verbatim>\<open>-0.0\<close> from
  \<^verbatim>\<open>0.0\<close>.
\<close>

datatype error = OverflowError

datatype pyfloat = Fin rat | PInf | NInf | NaN

text \<open>Rounding to the nearest integer, ties to the even one.\<close>

definition round_even :: "rat \<Rightarrow> int" where
  "round_even t = (let f = \<lfloor>t\<rfloor>; d = t - of_int f in
      if d < 1 / 2 then f else if 1 / 2 < d then f + 1 else if even f then f else f + 1)"

text \<open>The binary exponent of a positive rational: \<open>2 powi binade q \<le> q < 2 powi (binade q + 1)\<close>.\<close>

definition binade :: "rat \<Rightarrow> int" where
  "binade q = (case quotient_of q of (a, b) \<Rightarrow>
      let d = bitlen a - bitlen b in if 2 powi d \<le> q then d else d - 1)"

text \<open>
  The exponent of the last mantissa bit in the binade of \<open>q\<close>: 53 bits of precision, and the
  fixed spacing \<open>2 powi - 1074\<close> of the subnormal numbers below \<open>2 powi - 1022\<close>.
\<close>

definition spacing :: "rat \<Rightarrow> int" where
  "spacing q = max (binade \<bar>q\<bar>) (- 1022) - 52"

definition ulp :: "rat \<Rightarrow> rat" where
  "ulp q = 2 powi spacing q"

text \<open>Rounding a rational to binary64 precision, the exponent unbounded above.\<close>

definition rnd :: "rat \<Rightarrow> rat" where
  "rnd q = (if q = 0 then 0 else of_int (round_even (q / ulp q)) * ulp q)"

text \<open>The float nearest to a rational; a rounded magnitude of \<open>2 ^ 1024\<close> or more overflows to
  an infinity.\<close>

definition to_double :: "rat \<Rightarrow> pyfloat" where
  "to_double q = (let r = rnd q in
      if 2 ^ 1024 \<le> r then PInf else if r \<le> - (2 ^ 1024) then NInf else Fin r)"

text \<open>
  An \<^verbatim>\<open>int\<close> operand of a float operation is converted first, correctly rounded; Python
  raises \<^verbatim>\<open>OverflowError\<close> (int too large to convert to float) where the result is not finite.
\<close>

definition float_of_int :: "int \<Rightarrow> error + pyfloat" where
  "float_of_int n = (case to_double (of_int n) of Fin r \<Rightarrow> Inr (Fin r) | _ \<Rightarrow> Inl OverflowError)"

fun fadd :: "pyfloat \<Rightarrow> pyfloat \<Rightarrow> pyfloat" where
  "fadd (Fin a) (Fin b) = to_double (a + b)"
| "fadd NaN _ = NaN"
| "fadd _ NaN = NaN"
| "fadd PInf NInf = NaN"
| "fadd NInf PInf = NaN"
| "fadd PInf _ = PInf"
| "fadd _ PInf = PInf"
| "fadd NInf _ = NInf"
| "fadd _ NInf = NInf"

fun fneg :: "pyfloat \<Rightarrow> pyfloat" where
  "fneg (Fin a) = Fin (- a)"
| "fneg PInf = NInf"
| "fneg NInf = PInf"
| "fneg NaN = NaN"

definition fsub :: "pyfloat \<Rightarrow> pyfloat \<Rightarrow> pyfloat" where
  "fsub a b = fadd a (fneg b)"

fun fmul :: "pyfloat \<Rightarrow> pyfloat \<Rightarrow> pyfloat" where
  "fmul (Fin a) (Fin b) = to_double (a * b)"
| "fmul NaN _ = NaN"
| "fmul _ NaN = NaN"
| "fmul (Fin a) PInf = (if a = 0 then NaN else if 0 < a then PInf else NInf)"
| "fmul (Fin a) NInf = (if a = 0 then NaN else if 0 < a then NInf else PInf)"
| "fmul PInf (Fin b) = (if b = 0 then NaN else if 0 < b then PInf else NInf)"
| "fmul NInf (Fin b) = (if b = 0 then NaN else if 0 < b then NInf else PInf)"
| "fmul PInf PInf = PInf"
| "fmul PInf NInf = NInf"
| "fmul NInf PInf = NInf"
| "fmul NInf NInf = PInf"

text \<open>The comparisons \<^verbatim>\<open><\<close> and \<^verbatim>\<open><=\<close> of floats; both are false on NaN.\<close>

fun flt :: "pyfloat \<Rightarrow> pyfloat \<Rightarrow> bool" where
  "flt (Fin a) (Fin b) \<longleftrightarrow> a < b"
| "flt NaN _ \<longleftrightarrow> False"
| "flt _ NaN \<longleftrightarrow> False"
| "flt _ NInf \<longleftrightarrow> False"
| "flt PInf _ \<longleftrightarrow> False"
| "flt NInf _ \<longleftrightarrow> True"
| "flt _ PInf \<longleftrightarrow> True"

fun fle :: "pyfloat \<Rightarrow> pyfloat \<Rightarrow> bool" where
  "fle (Fin a) (Fin b) \<longleftrightarrow> a \<le> b"
| "fle NaN _ \<longleftrightarrow> False"
| "fle _ NaN \<longleftrightarrow> False"
| "fle NInf _ \<longleftrightarrow> True"
| "fle _ PInf \<longleftrightarrow> True"
| "fle _ NInf \<longleftrightarrow> False"
| "fle PInf _ \<longleftrightarrow> False"

section \<open>The bracket calculators\<close>

text \<open>
  The dictionary returned by both calculators. In the first slab \<^verbatim>\<open>base_tax\<close> is the
  \<^verbatim>\<open>int\<close> 0, in every other slab a float; the record holds the number's value. The
  cess \<^verbatim>\<open>tax * 0.04\<close> and the total \<^verbatim>\<open>tax + cess\<close> are floats always.
\<close>

record breakdown =
  base_tax :: pyfloat
  cess :: pyfloat
  total_tax :: pyfloat

text \<open>
  The right-hand sides of the assignments to \<^verbatim>\<open>tax\<close>, slab by slab. The integer
  difference is exact; it is converted when it meets the float literal, and so are the
  integer constants \<^verbatim>\<open>12500\<close>, \<^verbatim>\<open>112500\<close>, ... when they meet the float product (these
  conversions are exact).
\<close>

definition old_slab_1 :: "int \<Rightarrow> error + pyfloat" where
  "old_slab_1 income = Inr (Fin 0)"

definition old_slab_2 :: "int \<Rightarrow> error + pyfloat" where
  "old_slab_2 income =
     map_sum id (\<lambda>d. fmul d (to_double (5 / 100))) (float_of_int (income - 250000))"

definition old_slab_3 :: "int \<Rightarrow> error + pyfloat" where
  "old_slab_3 income =
     map_sum id (\<lambda>d. fadd (Fin 12500) (fmul d (to_double (2 / 10))))
       (float_of_int (income - 500000))"

definition old_slab_4 :: "int \<Rightarrow> error + pyfloat" where
  "old_slab_4 income =
     map_sum id (\<lambda>d. fadd (Fin 112500) (fmul d (to_double (3 / 10))))
       (float_of_int (income - 1000000))"

definition calculate_old_regime_tax :: "int \<Rightarrow> error + breakdown" where
  "calculate_old_regime_tax income_after_deductions =
     (case (if income_after_deductions \<le> 250000 then old_slab_1 income_after_deductions
            else if income_after_deductions \<le> 500000 then old_slab_2 income_after_deductions
            else if income_after_deductions \<le> 1000000 then old_slab_3 income_after_deductions
            else old_slab_4 income_after_deductions) of
        Inl e \<Rightarrow> Inl e
      | Inr tax \<Rightarrow>
          let cess = fmul tax (to_double (4 / 100));
              total_tax = fadd tax cess
          in Inr \<lparr>base_tax = tax, cess = cess, total_tax = total_tax\<rparr>)"

definition new_slab_1 :: "int \<Rightarrow> error + pyfloat" where
  "new_slab_1 income = Inr (Fin 0)"

definition new_slab_2 :: "int \<Rightarrow> error + pyfloat" where
  "new_slab_2 income =
     map_sum id (\<lambda>d. fmul d (to_double (5 / 100))) (float_of_int (income - 300000))"

definition new_slab_3 :: "int \<Rightarrow> error + pyfloat" where
  "new_slab_3 income =
     map_sum id (\<lambda>d. fadd (Fin 15000) (fmul d (to_double (1 / 10))))
       (float_of_int (income - 600000))"

definition new_slab_4 :: "int \<Rightarrow> error + pyfloat" where
  "new_slab_4 income =
     map_sum id (\<lambda>d. fadd (Fin 45000) (fmul d (to_double (15 / 100))))
       (float_of_int (income - 900000))"

definition new_slab_5 :: "int \<Rightarrow> error + pyfloat" where
  "new_slab_5 income =
     map_sum id (\<lambda>d. fadd (Fin 90000) (fmul d (to_double (2 / 10))))
       (float_of_int (income - 1200000))"

definition new_slab_6 :: "int \<Rightarrow> error + pyfloat" where
  "new_slab_6 income =
     map_sum id (\<lambda>d. fadd (Fin 150000) (fmul d (to_double (3 / 10))))
       (float_of_int (income - 1500000))"

definition calculate_new_regime_tax :: "int \<Rightarrow> error + breakdown" where
  "calculate_new_regime_tax income =
     (case (if income \<le> 300000 then new_slab_1 income
            else if income \<le> 600000 then new_slab_2 income
            else if income \<le> 900000 then new_slab_3 income
            else if income \<le> 1200000 then new_slab_4 income
            else if income \<le> 1500000 then new_slab_5 income
            else new_slab_6 income) of
        Inl e \<Rightarrow> Inl e
      | Inr tax \<Rightarrow>
          let cess = fmul tax (to_double (4 / 100));
              total_tax = fadd tax cess
          in Inr \<lparr>base_tax = tax, cess = cess, total_tax = total_tax\<rparr>)"

section \<open>The tips\<close>

text \<open>
  The format specification \<^verbatim>\<open>{n:,}\<close> of an integer: its decimal digits, grouped by
  three with commas from the right, after the sign.
\<close>

fun decimal :: "nat \<Rightarrow> string" where
  "decimal n = (if n < 10 then [''0123456789'' ! n]
                else decimal (n div 10) @ [''0123456789'' ! (n mod 10)])"

fun group3 :: "string \<Rightarrow> string" where
  "group3 (a # b # c # d # ds) = a # b # c # CHR '','' # group3 (d # ds)"
| "group3 ds = ds"

definition format_commas :: "int \<Rightarrow> string" where
  "format_commas n =
     (if n < 0 then ''-'' else []) @ rev (group3 (rev (decimal (nat \<bar>n\<bar>))))"

definition get_tax_saving_tips :: "int \<Rightarrow> int \<Rightarrow> int \<Rightarrow> int \<Rightarrow> int \<Rightarrow> string list" where
  "get_tax_saving_tips income investments health_insurance home_loan edu_loan =
     (let tips = [];
          tips = (if investments < 150000
                  then let remaining_80c = 150000 - investments
                       in tips @ [''You can invest Rs. '' @ format_commas remaining_80c
                            @ '' more under section 80C (PPF, ELSS, NSC, etc.) to maximize your tax benefits.'']
                  else tips);
          tips = (if health_insurance < 25000
                  then tips @ [''Consider buying health insurance for yourself and family (up to Rs. 25,000 deduction under 80D).'']
                  else tips);
          tips = (if home_loan > 0 \<and> home_loan < 200000
                  then tips @ [''You can claim up to Rs. 2,00,000 for home loan interest under Section 24b. Current claim: Rs. ''
                            @ format_commas home_loan]
                  else tips);
          tips = (if edu_loan = 0
                  then tips @ [''Interest paid on education loans is fully deductible under Section 80E (no upper limit).'']
                  else tips);
          tips = tips @ [''Consider investing in NPS (National Pension Scheme) for additional deduction of up to Rs. 50,000 under Section 80CCD(1B).''];
          tips = (if income > 1000000
                  then tips @ [''Consider splitting income with family members (income splitting) to reduce tax burden.'']
                  else tips)
      in tips)"

section \<open>The comparison of the regimes\<close>

record verdict =
  regime :: string
  savings :: pyfloat

definition get_better_regime :: "breakdown \<Rightarrow> breakdown \<Rightarrow> verdict" where
  "get_better_regime old_regime_tax new_regime_tax =
     (if flt (total_tax old_regime_tax) (total_tax new_regime_tax)
      then \<lparr>regime = ''Old Regime'',
            savings = fsub (total_tax new_regime_tax) (total_tax old_regime_tax)\<rparr>
      else \<lparr>regime = ''New Regime'',
            savings = fsub (total_tax old_regime_tax) (total_tax new_regime_tax)\<rparr>)"

section \<open>The predictor\<close>

text \<open>
  \<^verbatim>\<open>tax_predictor.py\<close> draws its training set from the global generator of numpy and fits a
  decision tree of scikit-learn, which draws from the same generator (no \<^verbatim>\<open>random_state\<close>
  is given). The state of that generator is threaded through the calls; the calls of the two
  libraries are parameters, arbitrary functions of their arguments and of the generator state
  \<^typ>\<open>'g\<close>, the fitted tree an arbitrary \<^typ>\<open>'m\<close>:
  \<^item> \<^verbatim>\<open>np.random.seed(n)\<close> replaces the state by one computed from \<open>n\<close>;
  \<^item> \<^verbatim>\<open>np.random.randint(low, high, size)\<close> and \<^verbatim>\<open>np.random.uniform(low, high, size)\<close>
    return an array of \<open>size\<close> elements, given here by index, and the next state;
  \<^item> \<^verbatim>\<open>DecisionTreeClassifier(max_depth=d).fit(X, y)\<close> returns the fitted tree and the next
    state;
  \<^item> \<^verbatim>\<open>predict\<close> and \<^verbatim>\<open>predict_proba\<close> give, for the single row passed, the class and
    the vector of class probabilities.
\<close>

datatype column = Ints "int list" | Floats "pyfloat list"

record ('g, 'm) library =
  np_random_seed :: "nat \<Rightarrow> 'g"
  np_random_randint :: "int \<Rightarrow> int \<Rightarrow> nat \<Rightarrow> 'g \<Rightarrow> (nat \<Rightarrow> int) \<times> 'g"
  np_random_uniform :: "pyfloat \<Rightarrow> pyfloat \<Rightarrow> nat \<Rightarrow> 'g \<Rightarrow> (nat \<Rightarrow> pyfloat) \<times> 'g"
  tree_fit :: "nat \<Rightarrow> (string \<times> column) list \<Rightarrow> int list \<Rightarrow> 'g \<Rightarrow> 'm \<times> 'g"
  tree_predict :: "'m \<Rightarrow> int list \<Rightarrow> int"
  tree_predict_proba :: "'m \<Rightarrow> int list \<Rightarrow> pyfloat list"

definition array :: "nat \<Rightarrow> (nat \<Rightarrow> 'a) \<Rightarrow> 'a list" where
  "array n f = map f [0..<n]"

text \<open>
  The arithmetic of numpy on arrays of 64-bit floats and integers, element by element:
  an integer operand is converted, a division by zero gives an infinity or NaN, and
  \<^verbatim>\<open>np.clip\<close> is the minimum with the upper bound of the maximum with the lower bound.
\<close>

fun fdiv :: "pyfloat \<Rightarrow> pyfloat \<Rightarrow> pyfloat" where
  "fdiv (Fin a) (Fin b) =
     (if b = 0 then (if a = 0 then NaN else if 0 < a then PInf else NInf) else to_double (a / b))"
| "fdiv NaN _ = NaN"
| "fdiv _ NaN = NaN"
| "fdiv (Fin a) _ = Fin 0"
| "fdiv PInf (Fin b) = (if 0 \<le> b then PInf else NInf)"
| "fdiv NInf (Fin b) = (if 0 \<le> b then NInf else PInf)"
| "fdiv _ _ = NaN"

fun clip :: "rat \<Rightarrow> rat \<Rightarrow> pyfloat \<Rightarrow> pyfloat" where
  "clip lo hi (Fin a) = Fin (min (max a lo) hi)"
| "clip lo hi PInf = Fin hi"
| "clip lo hi NInf = Fin (min lo hi)"
| "clip lo hi NaN = NaN"

text \<open>The data frame of \<^verbatim>\<open>_generate_training_data\<close>, column by column (the column
  \<^verbatim>\<open>80C_Investments\<close> is the field \<open>Investments_80C\<close>).\<close>

record data_frame =
  Income :: "int list"
  Investments_80C :: "pyfloat list"
  Health_Insurance :: "int list"
  HRA :: "int list"
  Home_Loan :: "int list"
  Edu_Loan :: "int list"
  Age :: "int list"
  Total_Deductions :: "pyfloat list"
  Best_Regime :: "int list"

definition generate_training_data :: "('g, 'm) library \<Rightarrow> 'g \<Rightarrow> data_frame \<times> 'g" where
  "generate_training_data np g =
     (let g = np_random_seed np 42;
          (income, g) = np_random_randint np 300000 2500000 100 g;
          income = array 100 income;
          (u, g) = np_random_uniform np (to_double (5 / 100)) (to_double (15 / 100)) 100 g;
          ded_80c = map (clip 0 150000)
                      (map2 (\<lambda>i u. fmul (to_double (of_int i)) u) income (array 100 u));
          (ded_80d, g) = np_random_randint np 0 50000 100 g;
          ded_80d = array 100 ded_80d;
          (hra, g) = np_random_randint np 0 200000 100 g;
          hra = array 100 hra;
          (home_loan, g) = np_random_randint np 0 300000 100 g;
          home_loan = array 100 home_loan;
          (edu_loan, g) = np_random_randint np 0 100000 100 g;
          edu_loan = array 100 edu_loan;
          add_ints = map2 (\<lambda>a i. fadd a (to_double (of_int i)));
          total_deductions =
            add_ints (add_ints (add_ints (add_ints ded_80c ded_80d) hra) home_loan) edu_loan;
          (age, g) = np_random_randint np 22 70 100 g;
          age = array 100 age;
          deduction_income_ratio =
            map2 (\<lambda>t i. fdiv t (to_double (of_int i))) total_deductions income;
          labels = map (\<lambda>r. if flt (to_double (12 / 100)) r then 1 else 0) deduction_income_ratio;
          df = \<lparr>Income = income, Investments_80C = ded_80c, Health_Insurance = ded_80d,
                 HRA = hra, Home_Loan = home_loan, Edu_Loan = edu_loan, Age = age,
                 Total_Deductions = total_deductions, Best_Regime = labels\<rparr>
      in (df, g))"

definition train_model :: "('g, 'm) library \<Rightarrow> data_frame \<Rightarrow> 'g \<Rightarrow> 'm \<times> 'g" where
  "train_model sk training_data g =
     (let X = [(''Income'', Ints (Income training_data)),
               (''80C_Investments'', Floats (Investments_80C training_data)),
               (''Health_Insurance'', Ints (Health_Insurance training_data)),
               (''HRA'', Ints (HRA training_data)),
               (''Home_Loan'', Ints (Home_Loan training_data)),
               (''Edu_Loan'', Ints (Edu_Loan training_data)),
               (''Age'', Ints (Age training_data)),
               (''Total_Deductions'', Floats (Total_Deductions training_data))];
          y = Best_Regime training_data
      in tree_fit sk 5 X y g)"

text \<open>An instance: its two attributes. The constructor leaves the generator in a new state.\<close>

record 'm predictor =
  training_data :: data_frame
  model :: 'm

definition init :: "('g, 'm) library \<Rightarrow> 'g \<Rightarrow> 'm predictor \<times> 'g" where
  "init lib g =
     (let (training_data, g) = generate_training_data lib g;
          (model, g) = train_model lib training_data g
      in (\<lparr>training_data = training_data, model = model\<rparr>, g))"

text \<open>The dictionary returned by \<^verbatim>\<open>predict_regime\<close> (the key \<^verbatim>\<open>regime\<close> is the field
  \<open>predicted_regime\<close>). Indexing the probabilities by the class counts a negative index from
  the end and raises \<^verbatim>\<open>IndexError\<close> out of range.\<close>

datatype index_error = IndexError

record prediction =
  predicted_regime :: string
  confidence :: pyfloat
  explanation :: string

definition item :: "'a list \<Rightarrow> int \<Rightarrow> index_error + 'a" where
  "item xs i =
     (if 0 \<le> i \<and> i < int (length xs) then Inr (xs ! nat i)
      else if i < 0 \<and> - int (length xs) \<le> i then Inr (xs ! nat (int (length xs) + i))
      else Inl IndexError)"

definition predict_regime ::
  "('g, 'm) library \<Rightarrow> 'm predictor \<Rightarrow> int \<Rightarrow> int \<Rightarrow> int \<Rightarrow> int \<Rightarrow> int \<Rightarrow> int \<Rightarrow> int option
    \<Rightarrow> index_error + prediction" where
  "predict_regime sk self income investments_80c health_insurance hra home_loan edu_loan age =
     (let age = (case age of None \<Rightarrow> 30 | Some a \<Rightarrow> a);
          total_deductions = investments_80c + health_insurance + hra + home_loan + edu_loan;
          input_data = [income, investments_80c, health_insurance, hra, home_loan, edu_loan,
                        age, total_deductions];
          prediction = tree_predict sk (model self) input_data;
          probability = tree_predict_proba sk (model self) input_data;
          regime = (if prediction = 1 then ''Old Regime'' else ''New Regime'')
      in case item probability prediction of
           Inl e \<Rightarrow> Inl e
         | Inr p \<Rightarrow>
             let confidence = fmul p (Fin 100);
                 explanation =
                   (if prediction = 1
                    then if total_deductions > 150000
                         then ''Your high deduction amount makes the Old Regime more beneficial.''
                         else ''Based on your profile, the Old Regime provides better tax benefits.''
                    else if total_deductions < 50000
                         then ''With low deductions, the New Regime'' @ [CHR 0x27]
                           @ ''s reduced tax rates are more beneficial.''
                         else ''Based on your overall profile, the New Regime appears to be more advantageous.'')
             in Inr \<lparr>predicted_regime = regime, confidence = confidence,
                      explanation = explanation\<rparr>)"

section \<open>The constants of the arithmetic\<close>

text \<open>The values of the float literals \<^verbatim>\<open>0.05\<close>, \<^verbatim>\<open>0.1\<close>, \<^verbatim>\<open>0.15\<close>, \<^verbatim>\<open>0.2\<close>,
  \<^verbatim>\<open>0.3\<close> and \<^verbatim>\<open>0.04\<close>: none of the six decimals is a binary fraction.\<close>

definition c005 :: rat where "c005 = 3602879701896397 / 72057594037927936"
definition c01 :: rat where "c01 = 3602879701896397 / 36028797018963968"
definition c015 :: rat where "c015 = 5404319552844595 / 36028797018963968"
definition c02 :: rat where "c02 = 3602879701896397 / 18014398509481984"
definition c03 :: rat where "c03 = 5404319552844595 / 18014398509481984"
definition c004 :: rat where "c004 = 5764607523034235 / 144115188075855872"

text \<open>The first integer that no longer converts to a finite float: halfway between the
  largest float \<open>2 ^ 1024 - 2 ^ 971\<close> and \<open>2 ^ 1024\<close>, a tie that rounds up.\<close>

definition int_limit :: int where "int_limit = 2 ^ 1024 - 2 ^ 970"

section \<open>The values computed, as rationals\<close>

text \<open>
  The product \<^verbatim>\<open>n * r\<close> of an integer and a float, the sum \<^verbatim>\<open>c + n * r\<close> with an integer
  constant, and the total \<^verbatim>\<open>tax + tax * 0.04\<close>, each operation rounded. They name
  the values that the calculators return wherever no conversion overflows.
\<close>

definition lin :: "rat \<Rightarrow> int \<Rightarrow> rat" where
  "lin r n = rnd (rnd (of_int n) * r)"

definition aff :: "rat \<Rightarrow> rat \<Rightarrow> int \<Rightarrow> rat" where
  "aff c r n = rnd (c + lin r n)"

definition gross :: "rat \<Rightarrow> rat" where
  "gross t = rnd (t + rnd (t * c004))"

definition old_base :: "int \<Rightarrow> rat" where
  "old_base x =
     (if x \<le> 250000 then 0
      else if x \<le> 500000 then lin c005 (x - 250000)
      else if x \<le> 1000000 then aff 12500 c02 (x - 500000)
      else aff 112500 c03 (x - 1000000))"

definition new_base :: "int \<Rightarrow> rat" where
  "new_base x =
     (if x \<le> 300000 then 0
      else if x \<le> 600000 then lin c005 (x - 300000)
      else if x \<le> 900000 then aff 15000 c01 (x - 600000)
      else if x \<le> 1200000 then aff 45000 c015 (x - 900000)
      else if x \<le> 1500000 then aff 90000 c02 (x - 1200000)
      else aff 150000 c03 (x - 1500000))"

definition breakdown_of :: "rat \<Rightarrow> breakdown" where
  "breakdown_of t = \<lparr>base_tax = Fin t, cess = Fin (rnd (t * c004)), total_tax = Fin (gross t)\<rparr>"

text \<open>The last lines that both calculators share: the cess, the total and the dictionary.\<close>

definition with_cess :: "pyfloat \<Rightarrow> breakdown" where
  "with_cess tax =
     (let cess = fmul tax (to_double (4 / 100));
          total_tax = fadd tax cess
      in \<lparr>base_tax = tax, cess = cess, total_tax = total_tax\<rparr>)"

text \<open>The slab rates, the slab constants and a bound on every tax figure.\<close>

definition rate :: "rat \<Rightarrow> bool" where
  "rate r \<longleftrightarrow> 0 \<le> r \<and> r \<le> 3 / 8"

definition slab_const :: "rat \<Rightarrow> bool" where
  "slab_const c \<longleftrightarrow> 0 \<le> c \<and> c \<le> 150000"

definition huge :: rat where
  "huge = 2 ^ 1023"

section \<open>Rounding\<close>

lemma two_powi_pos [simp]: "0 < (2::rat) powi k"
  by simp

lemma two_powi_add: "(2::rat) powi (a + b) = 2 powi a * 2 powi b"
  by (simp add: power_int_add)

lemma two_powi_diff: "(2::rat) powi (a - b) = 2 powi a / 2 powi b"
  by (simp add: power_int_diff)

lemma two_powi_less_iff: "(2::rat) powi a < 2 powi b \<longleftrightarrow> a < b"
proof
  assume "(2::rat) powi a < 2 powi b"
  show "a < b"
  proof (rule ccontr)
    assume "\<not> a < b"
    then have "b \<le> a" by simp
    then have "(2::rat) powi b \<le> 2 powi a" by (intro power_int_increasing) simp_all
    with \<open>(2::rat) powi a < 2 powi b\<close> show False by simp
  qed
next
  assume "a < b"
  then show "(2::rat) powi a < 2 powi b" by (intro power_int_strict_increasing) simp_all
qed

lemma two_powi_le_iff: "(2::rat) powi a \<le> 2 powi b \<longleftrightarrow> a \<le> b"
  using two_powi_less_iff [of b a] by (simp add: linorder_not_less [symmetric])

lemma int_bitlen_rat:
  assumes "0 < a"
  shows "(2::rat) powi (bitlen a - 1) \<le> of_int a" and "of_int a < (2::rat) powi bitlen a"
proof -
  have b: "2 ^ nat (bitlen a - 1) \<le> a" "a < 2 ^ nat (bitlen a)"
    using bitlen_bounds [OF assms] by simp_all
  have ge1: "1 \<le> bitlen a"
    using assms by (simp add: bitlen_alt_def)
  have "(of_int (2 ^ nat (bitlen a - 1)) :: rat) \<le> of_int a"
    using b(1) of_int_le_iff by blast
  then show "(2::rat) powi (bitlen a - 1) \<le> of_int a"
    using ge1 by (simp add: power_int_nonneg_exp)
  have "(of_int a :: rat) < of_int (2 ^ nat (bitlen a))"
    using b(2) of_int_less_iff by blast
  then show "of_int a < (2::rat) powi bitlen a"
    using ge1 by (simp add: power_int_nonneg_exp)
qed

lemma binade_bounds:
  assumes "0 < q"
  shows "2 powi binade q \<le> q" and "q < 2 powi (binade q + 1)"
proof -
  obtain a b where ab: "quotient_of q = (a, b)" by (cases "quotient_of q")
  have bpos: "0 < b" using ab by (rule quotient_of_denom_pos)
  have q: "q = of_int a / of_int b" using ab by (simp add: quotient_of_div)
  have apos: "0 < a" using assms bpos q by (simp add: zero_less_divide_iff)
  define d where "d = bitlen a - bitlen b"
  have B: "(0::rat) < of_int b" using bpos by simp
  have up: "q < 2 powi (d + 1)"
  proof -
    have "of_int a < (2::rat) powi bitlen a" using int_bitlen_rat(2) [OF apos] .
    also have "\<dots> = 2 powi (d + 1) * 2 powi (bitlen b - 1)"
      by (simp add: d_def flip: two_powi_add)
    also have "\<dots> \<le> 2 powi (d + 1) * of_int b"
      using int_bitlen_rat(1) [OF bpos] by simp
    finally show ?thesis using B by (simp add: q pos_divide_less_eq)
  qed
  have lo: "2 powi (d - 1) \<le> q"
  proof -
    have "2 powi (d - 1) * of_int b \<le> 2 powi (d - 1) * (2::rat) powi bitlen b"
      using int_bitlen_rat(2) [OF bpos] by simp
    also have "\<dots> = 2 powi (bitlen a - 1)"
      by (simp add: d_def flip: two_powi_add)
    also have "\<dots> \<le> of_int a" using int_bitlen_rat(1) [OF apos] .
    finally show ?thesis using B by (simp add: q pos_le_divide_eq)
  qed
  have bin: "binade q = (if 2 powi d \<le> q then d else d - 1)"
    by (simp add: binade_def ab d_def Let_def)
  show "2 powi binade q \<le> q" using lo by (simp add: bin)
  show "q < 2 powi (binade q + 1)" using up by (auto simp add: bin)
qed

lemma binade_unique:
  assumes "2 powi e \<le> q" "q < 2 powi (e + 1)"
  shows "binade q = e"
proof -
  have pos: "0 < q" using assms(1) two_powi_pos [of e] by linarith
  have "2 powi e < (2::rat) powi (binade q + 1)"
    using assms(1) binade_bounds(2) [OF pos] by linarith
  moreover have "2 powi binade q < (2::rat) powi (e + 1)"
    using assms(2) binade_bounds(1) [OF pos] by linarith
  ultimately show ?thesis by (simp add: two_powi_less_iff)
qed

lemma binade_mono:
  assumes "0 < q" "q \<le> r"
  shows "binade q \<le> binade r"
proof -
  have "2 powi binade q < (2::rat) powi (binade r + 1)"
    using binade_bounds(1) [OF assms(1)] binade_bounds(2) [of r] assms by linarith
  then show ?thesis by (simp add: two_powi_less_iff)
qed


lemma round_even_cases:
  "round_even t = \<lfloor>t\<rfloor> \<or> round_even t = \<lfloor>t\<rfloor> + 1"
  by (simp add: round_even_def Let_def)

lemma round_even_of_int [simp]: "round_even (of_int n) = n"
  by (simp add: round_even_def)

lemma round_even_error: "\<bar>of_int (round_even t) - t\<bar> \<le> 1 / 2"
proof -
  have "of_int \<lfloor>t\<rfloor> \<le> t" "t < of_int \<lfloor>t\<rfloor> + 1" by linarith+
  then show ?thesis
    by (auto simp add: round_even_def Let_def abs_le_iff)
qed

lemma round_even_mono:
  assumes "s \<le> t"
  shows "round_even s \<le> round_even t"
proof (cases "\<lfloor>s\<rfloor> = \<lfloor>t\<rfloor>")
  case True
  then show ?thesis using assms
    by (auto simp add: round_even_def Let_def)
next
  case False
  then have "\<lfloor>s\<rfloor> + 1 \<le> \<lfloor>t\<rfloor>" using floor_mono [OF assms] by linarith
  moreover have "round_even s \<le> \<lfloor>s\<rfloor> + 1" using round_even_cases [of s] by linarith
  moreover have "\<lfloor>t\<rfloor> \<le> round_even t" using round_even_cases [of t] by linarith
  ultimately show ?thesis by linarith
qed

lemma round_even_ge: "of_int n \<le> t \<Longrightarrow> n \<le> round_even t"
  using round_even_mono [of "of_int n" t] by simp

lemma round_even_le: "t \<le> of_int n \<Longrightarrow> round_even t \<le> n"
  using round_even_mono [of t "of_int n"] by simp


lemma ulp_spacing: "ulp q = 2 powi spacing q"
  by (simp add: ulp_def)

lemma ulp_pos [simp]: "0 < ulp q"
  by (simp add: ulp_def)

lemma rnd_nonneg: "0 \<le> q \<Longrightarrow> 0 \<le> rnd q"
proof -
  assume "0 \<le> q"
  then have "of_int 0 \<le> q / ulp q" using ulp_pos [of q] by (simp add: less_imp_le)
  then have "0 \<le> round_even (q / ulp q)" by (rule round_even_ge)
  then have "(0::rat) \<le> of_int (round_even (q / ulp q)) * ulp q"
    using ulp_pos [of q] by (intro mult_nonneg_nonneg) (simp_all add: less_imp_le)
  then show ?thesis by (simp add: rnd_def)
qed

lemma rnd_error: "\<bar>rnd q - q\<bar> \<le> ulp q / 2"
proof (cases "q = 0")
  case True
  then show ?thesis using ulp_pos [of 0] by (simp add: rnd_def less_imp_le)
next
  case False
  have u: "ulp q \<noteq> 0" "\<bar>ulp q\<bar> = ulp q" using ulp_pos [of q] by linarith+
  have "rnd q - q = (of_int (round_even (q / ulp q)) - q / ulp q) * ulp q"
    using False u(1) by (simp add: rnd_def left_diff_distrib)
  then have "\<bar>rnd q - q\<bar> = \<bar>of_int (round_even (q / ulp q)) - q / ulp q\<bar> * ulp q"
    by (simp add: abs_mult u(2))
  also have "\<dots> \<le> 1 / 2 * ulp q"
    using ulp_pos [of q] by (intro mult_right_mono round_even_error) (simp add: less_imp_le)
  finally show ?thesis by simp
qed

lemma spacing_mono:
  assumes "0 < q" "q \<le> r"
  shows "spacing q \<le> spacing r"
  using binade_mono [OF assms] assms by (simp add: spacing_def)

text \<open>A positive value and its rounding lie in the same closed binade.\<close>

lemma rnd_upper:
  assumes "0 < q"
  shows "rnd q \<le> 2 powi (spacing q + 53)"
proof -
  have "q < 2 powi (binade q + 1)" using binade_bounds(2) [OF assms] .
  also have "\<dots> \<le> 2 powi (spacing q + 53)"
    using assms by (simp add: two_powi_le_iff spacing_def)
  finally have "q \<le> 2 powi (spacing q + 53)" by simp
  then have "q / ulp q \<le> 2 powi (spacing q + 53) / 2 powi spacing q"
    unfolding ulp_spacing by (intro divide_right_mono) simp_all
  also have "\<dots> = of_int (2 ^ 53)"
    by (simp add: two_powi_diff [symmetric])
  finally have "round_even (q / ulp q) \<le> 2 ^ 53" by (rule round_even_le)
  then have "(of_int (round_even (q / ulp q)) :: rat) \<le> of_int (2 ^ 53)"
    using of_int_le_iff by blast
  then have "rnd q \<le> of_int (2 ^ 53) * 2 powi spacing q"
    using assms by (simp add: rnd_def ulp_spacing)
  also have "\<dots> = 2 powi (spacing q + 53)"
    by (simp add: two_powi_add)
  finally show ?thesis .
qed

lemma rnd_lower:
  assumes "0 < q" "- 1022 \<le> binade q"
  shows "2 powi binade q \<le> rnd q"
proof -
  have sp: "spacing q = binade q - 52" using assms by (simp add: spacing_def)
  have "of_int (2 ^ 52) = 2 powi binade q / (2::rat) powi spacing q"
    by (simp add: sp two_powi_diff [symmetric])
  also have "\<dots> \<le> q / ulp q"
    unfolding ulp_spacing using binade_bounds(1) [OF assms(1)]
    by (intro divide_right_mono) simp_all
  finally have "2 ^ 52 \<le> round_even (q / ulp q)" by (rule round_even_ge)
  then have "(of_int (2 ^ 52) :: rat) \<le> of_int (round_even (q / ulp q))"
    using of_int_le_iff by blast
  then have "of_int (2 ^ 52) * 2 powi spacing q \<le> rnd q"
    using assms by (simp add: rnd_def ulp_spacing)
  moreover have "of_int (2 ^ 52) * 2 powi spacing q = (2::rat) powi binade q"
    by (simp add: sp two_powi_diff)
  ultimately show ?thesis by simp
qed

lemma rnd_mono_pos:
  assumes "0 < q" "q \<le> r"
  shows "rnd q \<le> rnd r"
proof (cases "spacing q = spacing r")
  case True
  then have u: "ulp q = ulp r" by (simp add: ulp_spacing)
  have "q / ulp r \<le> r / ulp r"
    using assms ulp_pos [of r] by (intro divide_right_mono) (simp_all add: less_imp_le)
  then have "round_even (q / ulp r) \<le> round_even (r / ulp r)" by (rule round_even_mono)
  then have "(of_int (round_even (q / ulp r)) :: rat) \<le> of_int (round_even (r / ulp r))"
    using of_int_le_iff by blast
  then show ?thesis using assms by (simp add: rnd_def u)
next
  case False
  have rpos: "0 < r" using assms by simp
  from False have lt: "spacing q < spacing r"
    using spacing_mono [OF assms] by simp
  then have big: "- 1022 \<le> binade r" "spacing q + 53 \<le> binade r"
    using assms rpos by (auto simp add: spacing_def max_def split: if_splits)
  have "rnd q \<le> 2 powi (spacing q + 53)" using rnd_upper [OF assms(1)] .
  also have "\<dots> \<le> 2 powi binade r" using big(2) by (simp add: two_powi_le_iff)
  also have "\<dots> \<le> rnd r" using rnd_lower [OF rpos big(1)] .
  finally show ?thesis .
qed

lemma rnd_mono:
  assumes "0 \<le> q" "q \<le> r"
  shows "rnd q \<le> rnd r"
proof (cases "q = 0")
  case True
  then show ?thesis using rnd_nonneg [of r] assms by (simp add: rnd_def)
next
  case False
  then show ?thesis using assms rnd_mono_pos [of q r] by simp
qed

text \<open>Every integer multiple of a power of two with a mantissa of at most 53 bits, at or
  above the smallest subnormal, is a fixed point of rounding.\<close>

lemma rnd_representable:
  assumes "0 < m" "m < 2 ^ 53" "- 1074 \<le> k"
  shows "rnd (of_int m * 2 powi k) = of_int m * 2 powi k"
proof -
  define q :: rat where "q = of_int m * 2 powi k"
  have qpos: "0 < q" using assms by (simp add: q_def)
  have "(of_int m :: rat) < of_int (2 ^ 53)"
    by (rule of_int_less_iff [THEN iffD2, OF assms(2)])
  then have "q < of_int (2 ^ 53) * 2 powi k"
    unfolding q_def by (intro mult_strict_right_mono) simp_all
  also have "\<dots> = 2 powi (k + 53)" by (simp add: two_powi_add)
  finally have "2 powi binade q < (2::rat) powi (k + 53)"
    using binade_bounds(1) [OF qpos] by linarith
  then have "binade q < k + 53" by (simp add: two_powi_less_iff)
  then have le: "spacing q \<le> k" using qpos assms(3) by (simp add: spacing_def)
  define s where "s = spacing q"
  define j where "j = nat (k - s)"
  have u: "ulp q = 2 powi s" by (simp add: ulp_spacing s_def)
  have "(2::rat) powi k = 2 powi (s + int j)" using le by (simp add: j_def s_def)
  also have "\<dots> = 2 powi s * 2 ^ j" by (simp add: two_powi_add)
  finally have k: "(2::rat) powi k = 2 powi s * 2 ^ j" .
  have qe: "q = of_int (m * 2 ^ j) * 2 powi s"
    unfolding q_def k by simp
  then have "q / 2 powi s = of_int (m * 2 ^ j)" by simp
  then have "round_even (q / 2 powi s) = m * 2 ^ j" by (simp only: round_even_of_int)
  then have "rnd q = of_int (m * 2 ^ j) * 2 powi s"
    using qpos by (simp add: rnd_def u)
  then have "rnd q = q" using qe by simp
  then show ?thesis by (simp only: q_def)
qed


section \<open>Evaluating the rounding at concrete numbers\<close>

lemma round_even_near:
  assumes "\<bar>of_int m - t\<bar> < 1 / 2"
  shows "round_even t = m"
proof -
  have "\<bar>(of_int (round_even t) :: rat) - of_int m\<bar> < 1"
    using round_even_error [of t] assms by linarith
  then have "\<bar>(of_int (round_even t - m) :: rat)\<bar> < of_int 1" by simp
  then have "\<bar>round_even t - m\<bar> < 1"
    by (simp only: of_int_abs [symmetric] of_int_less_iff)
  then show ?thesis by simp
qed

lemma round_even_tie:
  assumes "t = of_int f + 1 / 2"
  shows "round_even t = (if even f then f else f + 1)"
proof -
  have "\<lfloor>t\<rfloor> = f" unfolding assms by linarith
  then show ?thesis by (simp add: round_even_def assms)
qed

lemma spacing_normal:
  assumes "2 powi e \<le> q" "q < 2 powi (e + 1)" "- 1022 \<le> e"
  shows "spacing q = e - 52"
proof -
  have "0 < q" using assms(1) two_powi_pos [of e] by linarith
  then have "\<bar>q\<bar> = q" by simp
  then show ?thesis using binade_unique [OF assms(1,2)] assms(3) by (simp add: spacing_def)
qed

lemma rnd_near:
  assumes "2 powi e \<le> q" "q < 2 powi (e + 1)" "- 1022 \<le> e"
    and "\<bar>of_int m - q / 2 powi (e - 52)\<bar> < 1 / 2"
  shows "rnd q = of_int m * 2 powi (e - 52)"
proof -
  have "0 < q" using assms(1) two_powi_pos [of e] by linarith
  moreover have "ulp q = 2 powi (e - 52)"
    using spacing_normal [OF assms(1,2,3)] by (simp add: ulp_def)
  ultimately show ?thesis using round_even_near [OF assms(4)] by (simp add: rnd_def)
qed

lemma rnd_tie:
  assumes "2 powi e \<le> q" "q < 2 powi (e + 1)" "- 1022 \<le> e"
    and "q / 2 powi (e - 52) = of_int f + 1 / 2"
  shows "rnd q = of_int (if even f then f else f + 1) * 2 powi (e - 52)"
proof -
  have "0 < q" using assms(1) two_powi_pos [of e] by linarith
  moreover have "ulp q = 2 powi (e - 52)"
    using spacing_normal [OF assms(1,2,3)] by (simp add: ulp_def)
  ultimately show ?thesis using round_even_tie [OF assms(4)] by (simp add: rnd_def)
qed

lemma rnd_0 [simp]: "rnd 0 = 0"
  by (simp add: rnd_def)

lemma rnd_of_int:
  assumes "0 \<le> n" "n < 2 ^ 53"
  shows "rnd (of_int n) = of_int n"
proof (cases "n = 0")
  case True
  then show ?thesis by simp
next
  case False
  then have "0 < n" using assms by simp
  then show ?thesis using rnd_representable [of n 0] assms by simp
qed

lemma rnd_c005: "rnd (5 / 100) = c005"
  using rnd_near [of "- 5" "5 / 100" 7205759403792794] by (simp add: c005_def)

lemma rnd_c01: "rnd (1 / 10) = c01"
  using rnd_near [of "- 4" "1 / 10" 7205759403792794] by (simp add: c01_def)

lemma rnd_c015: "rnd (15 / 100) = c015"
  using rnd_near [of "- 3" "15 / 100" 5404319552844595] by (simp add: c015_def)

lemma rnd_c02: "rnd (2 / 10) = c02"
  using rnd_near [of "- 3" "2 / 10" 7205759403792794] by (simp add: c02_def)

lemma rnd_c03: "rnd (3 / 10) = c03"
  using rnd_near [of "- 2" "3 / 10" 5404319552844595] by (simp add: c03_def)

lemma rnd_c004: "rnd (4 / 100) = c004"
  using rnd_near [of "- 5" "4 / 100" 5764607523034235] by (simp add: c004_def)


section \<open>Finite results\<close>

lemma rnd_le:
  assumes "0 \<le> q" "q \<le> b" "rnd b = b"
  shows "rnd q \<le> b"
  using rnd_mono [OF assms(1,2)] assms(3) by simp

lemma rnd_ge:
  assumes "0 \<le> b" "b \<le> q" "rnd b = b"
  shows "b \<le> rnd q"
  using rnd_mono [OF assms(1,2)] assms(3) by simp

lemma rnd_largest: "rnd (2 ^ 1024 - 2 ^ 971) = 2 ^ 1024 - 2 ^ 971"
  using rnd_representable [of "2 ^ 53 - 1" 971] by simp

lemma rnd_pow_1023: "rnd (2 ^ 1023) = 2 ^ 1023"
  using rnd_representable [of "2 ^ 52" 971] by simp

lemma rnd_pow_1019: "rnd (2 ^ 1019) = 2 ^ 1019"
  using rnd_representable [of "2 ^ 52" 967] by simp

lemma rnd_3_pow_1021: "rnd (3 * 2 ^ 1021) = 3 * 2 ^ 1021"
  using rnd_representable [of "3 * 2 ^ 51" 970] by simp

lemma to_double_Fin:
  assumes "0 \<le> q" "q \<le> 2 ^ 1024 - 2 ^ 971"
  shows "to_double q = Fin (rnd q)"
proof -
  have "rnd q \<le> 2 ^ 1024 - 2 ^ 971" using assms rnd_largest by (rule rnd_le)
  moreover have "0 \<le> rnd q" using assms(1) by (rule rnd_nonneg)
  ultimately show ?thesis by (simp add: to_double_def Let_def)
qed

lemma to_double_literals:
  "to_double (5 / 100) = Fin c005" "to_double (1 / 10) = Fin c01"
  "to_double (15 / 100) = Fin c015" "to_double (2 / 10) = Fin c02"
  "to_double (3 / 10) = Fin c03" "to_double (4 / 100) = Fin c004"
  using to_double_Fin [of "5 / 100"] to_double_Fin [of "1 / 10"] to_double_Fin [of "15 / 100"]
    to_double_Fin [of "2 / 10"] to_double_Fin [of "3 / 10"] to_double_Fin [of "4 / 100"]
    rnd_c005 rnd_c01 rnd_c015 rnd_c02 rnd_c03 rnd_c004
  by simp_all

lemma rnd_below_limit: "rnd (of_int (int_limit - 1)) = 2 ^ 1024 - 2 ^ 971"
  using rnd_near [of 1023 "of_int (int_limit - 1)" "2 ^ 53 - 1"] by (simp add: int_limit_def)

lemma rnd_at_limit: "rnd (of_int int_limit) = 2 ^ 1024"
  using rnd_tie [of 1023 "of_int int_limit" "2 ^ 53 - 1"] by (simp add: int_limit_def)

lemma float_of_int_finite:
  assumes "0 \<le> n" "n < int_limit"
  shows "float_of_int n = Inr (Fin (rnd (of_int n)))"
    and "0 \<le> rnd (of_int n)" and "rnd (of_int n) \<le> 2 ^ 1024 - 2 ^ 971"
proof -
  have "(of_int n :: rat) \<le> of_int (int_limit - 1)" using assms(2) by simp
  moreover have "(0::rat) \<le> of_int n" using assms(1) by simp
  ultimately have le: "rnd (of_int n) \<le> rnd (of_int (int_limit - 1))" by (rule rnd_mono [rotated])
  then show le': "rnd (of_int n) \<le> 2 ^ 1024 - 2 ^ 971" by (simp only: rnd_below_limit)
  show ge: "0 \<le> rnd (of_int n)" using assms(1) by (intro rnd_nonneg) simp
  show "float_of_int n = Inr (Fin (rnd (of_int n)))"
    using le' ge by (simp add: float_of_int_def to_double_def Let_def)
qed

lemma float_of_int_overflow:
  assumes "int_limit \<le> n"
  shows "float_of_int n = Inl OverflowError"
proof -
  have "(0::rat) \<le> of_int int_limit" by (simp add: int_limit_def)
  moreover have "(of_int int_limit :: rat) \<le> of_int n" using assms by simp
  ultimately have "rnd (of_int int_limit) \<le> rnd (of_int n)" by (rule rnd_mono)
  then have "2 ^ 1024 \<le> rnd (of_int n)" by (simp only: rnd_at_limit)
  then show ?thesis by (simp add: float_of_int_def to_double_def Let_def)
qed


section \<open>What the calculators return\<close>

lemma c_bounds:
  "0 \<le> c005" "c005 \<le> 3 / 8" "0 \<le> c01" "c01 \<le> 3 / 8" "0 \<le> c015" "c015 \<le> 3 / 8"
  "0 \<le> c02" "c02 \<le> 3 / 8" "0 \<le> c03" "c03 \<le> 3 / 8" "0 \<le> c004" "c004 \<le> 1 / 16"
  by (simp_all add: c005_def c01_def c015_def c02_def c03_def c004_def)

lemma lin_eval:
  assumes "0 \<le> n" "n < int_limit" "0 \<le> r" "r \<le> 3 / 8"
  shows "fmul (Fin (rnd (of_int n))) (Fin r) = Fin (lin r n)"
    and "0 \<le> lin r n" and "lin r n \<le> 3 * 2 ^ 1021"
proof -
  define a where "a = rnd (of_int n)"
  have a: "0 \<le> a" "a \<le> 2 ^ 1024 - 2 ^ 971"
    using float_of_int_finite(2,3) [OF assms(1,2)] by (simp_all add: a_def)
  have "a * r \<le> (2 ^ 1024 - 2 ^ 971) * (3 / 8)"
    using a assms(3,4) by (intro mult_mono) simp_all
  then have up: "a * r \<le> 3 * 2 ^ 1021" by simp
  have lo: "0 \<le> a * r" using a(1) assms(3) by simp
  show "0 \<le> lin r n" unfolding lin_def a_def [symmetric] using lo by (rule rnd_nonneg)
  show "lin r n \<le> 3 * 2 ^ 1021"
    unfolding lin_def a_def [symmetric] using lo up rnd_3_pow_1021 by (rule rnd_le)
  have "to_double (a * r) = Fin (rnd (a * r))"
    using lo up by (intro to_double_Fin) simp_all
  then show "fmul (Fin (rnd (of_int n))) (Fin r) = Fin (lin r n)"
    by (simp add: lin_def a_def)
qed

lemma aff_eval:
  assumes "0 \<le> n" "n < int_limit" "0 \<le> r" "r \<le> 3 / 8" "0 \<le> c" "c \<le> 2 ^ 1021"
  shows "fadd (Fin c) (fmul (Fin (rnd (of_int n))) (Fin r)) = Fin (aff c r n)"
    and "0 \<le> aff c r n" and "aff c r n \<le> 2 ^ 1023"
proof -
  note l = lin_eval [OF assms(1-4)]
  have lo: "0 \<le> c + lin r n" using l(2) assms(5) by simp
  have up: "c + lin r n \<le> 2 ^ 1023" using l(3) assms(6) by simp
  show "0 \<le> aff c r n" unfolding aff_def using lo by (rule rnd_nonneg)
  show "aff c r n \<le> 2 ^ 1023" unfolding aff_def using lo up rnd_pow_1023 by (rule rnd_le)
  have "to_double (c + lin r n) = Fin (rnd (c + lin r n))"
    using lo up by (intro to_double_Fin) simp_all
  then show "fadd (Fin c) (fmul (Fin (rnd (of_int n))) (Fin r)) = Fin (aff c r n)"
    unfolding l(1) aff_def by simp
qed

lemma gross_eval:
  assumes "0 \<le> t" "t \<le> 2 ^ 1023"
  shows "fmul (Fin t) (Fin c004) = Fin (rnd (t * c004))"
    and "fadd (Fin t) (Fin (rnd (t * c004))) = Fin (gross t)"
    and "0 \<le> rnd (t * c004)" and "0 \<le> gross t"
proof -
  have "t * c004 \<le> 2 ^ 1023 * (1 / 16)"
    using assms c_bounds(11,12) by (intro mult_mono) simp_all
  then have up: "t * c004 \<le> 2 ^ 1019" by simp
  have lo: "0 \<le> t * c004" using assms(1) c_bounds(11) by simp
  have c_up: "rnd (t * c004) \<le> 2 ^ 1019" using lo up rnd_pow_1019 by (rule rnd_le)
  show c_lo: "0 \<le> rnd (t * c004)" using lo by (rule rnd_nonneg)
  have "to_double (t * c004) = Fin (rnd (t * c004))"
    using lo up by (intro to_double_Fin) simp_all
  then show "fmul (Fin t) (Fin c004) = Fin (rnd (t * c004))" by simp
  have lo2: "0 \<le> t + rnd (t * c004)" using assms(1) c_lo by simp
  show "0 \<le> gross t" unfolding gross_def using lo2 by (rule rnd_nonneg)
  have "to_double (t + rnd (t * c004)) = Fin (rnd (t + rnd (t * c004)))"
    using lo2 c_up assms(2) by (intro to_double_Fin) simp_all
  then show "fadd (Fin t) (Fin (rnd (t * c004))) = Fin (gross t)" by (simp add: gross_def)
qed

lemma finish_eval:
  assumes "0 \<le> t" "t \<le> 2 ^ 1023"
  shows "(let cess = fmul (Fin t) (to_double (4 / 100)); total_tax = fadd (Fin t) cess
          in \<lparr>base_tax = Fin t, cess = cess, total_tax = total_tax\<rparr>) = breakdown_of t"
  unfolding to_double_literals Let_def breakdown_of_def
  by (simp only: gross_eval(1,2) [OF assms])

lemma old_base_bounds:
  assumes "x - 1000000 < int_limit"
  shows "0 \<le> old_base x" and "old_base x \<le> 2 ^ 1023"
proof -
  have small: "750000 < int_limit" by (simp add: int_limit_def)
  have "0 \<le> old_base x \<and> old_base x \<le> 2 ^ 1023"
  proof (cases "x \<le> 250000")
    case True
    then show ?thesis by (simp add: old_base_def)
  next
    case False
    note f1 = this
    show ?thesis
    proof (cases "x \<le> 500000")
      case True
      have "0 \<le> lin c005 (x - 250000)" "lin c005 (x - 250000) \<le> 3 * 2 ^ 1021"
        using lin_eval(2,3) [of "x - 250000" c005] f1 True small c_bounds by simp_all
      then show ?thesis using f1 True by (simp add: old_base_def)
    next
      case False
      note f2 = this
      show ?thesis
      proof (cases "x \<le> 1000000")
        case True
        have "0 \<le> aff 12500 c02 (x - 500000)" "aff 12500 c02 (x - 500000) \<le> 2 ^ 1023"
          using aff_eval(2,3) [of "x - 500000" c02 12500] f2 True small c_bounds by simp_all
        then show ?thesis using f1 f2 True by (simp add: old_base_def)
      next
        case False
        have "0 \<le> aff 112500 c03 (x - 1000000)" "aff 112500 c03 (x - 1000000) \<le> 2 ^ 1023"
          using aff_eval(2,3) [of "x - 1000000" c03 112500] False assms c_bounds by simp_all
        then show ?thesis using f1 f2 False by (simp add: old_base_def)
      qed
    qed
  qed
  then show "0 \<le> old_base x" and "old_base x \<le> 2 ^ 1023" by simp_all
qed


lemma case_with_cess:
  "(case s of Inl e \<Rightarrow> Inl e
    | Inr tax \<Rightarrow>
        let cess = fmul tax (to_double (4 / 100)); total_tax = fadd tax cess
        in Inr \<lparr>base_tax = tax, cess = cess, total_tax = total_tax\<rparr>) = map_sum id with_cess s"
  by (cases s) (simp_all add: with_cess_def Let_def)

lemma calculate_old_regime_tax_slabs:
  "calculate_old_regime_tax x =
     map_sum id with_cess
       (if x \<le> 250000 then old_slab_1 x else if x \<le> 500000 then old_slab_2 x
        else if x \<le> 1000000 then old_slab_3 x else old_slab_4 x)"
  unfolding calculate_old_regime_tax_def by (rule case_with_cess)

lemma calculate_new_regime_tax_slabs:
  "calculate_new_regime_tax x =
     map_sum id with_cess
       (if x \<le> 300000 then new_slab_1 x else if x \<le> 600000 then new_slab_2 x
        else if x \<le> 900000 then new_slab_3 x else if x \<le> 1200000 then new_slab_4 x
        else if x \<le> 1500000 then new_slab_5 x else new_slab_6 x)"
  unfolding calculate_new_regime_tax_def by (rule case_with_cess)

lemma with_cess_eval:
  assumes "0 \<le> t" "t \<le> 2 ^ 1023"
  shows "with_cess (Fin t) = breakdown_of t"
  unfolding with_cess_def by (rule finish_eval [OF assms])

lemma slab_lin:
  assumes "0 \<le> n" "n < int_limit" "0 \<le> r" "r \<le> 3 / 8"
  shows "map_sum id (\<lambda>d. fmul d (Fin r)) (float_of_int n) = Inr (Fin (lin r n))"
  by (simp only: float_of_int_finite(1) [OF assms(1,2)] map_sum.simps lin_eval(1) [OF assms])

lemma slab_aff:
  assumes "0 \<le> n" "n < int_limit" "0 \<le> r" "r \<le> 3 / 8" "0 \<le> c" "c \<le> 2 ^ 1021"
  shows "map_sum id (\<lambda>d. fadd (Fin c) (fmul d (Fin r))) (float_of_int n) = Inr (Fin (aff c r n))"
  by (simp only: float_of_int_finite(1) [OF assms(1,2)] map_sum.simps aff_eval(1) [OF assms])

lemma small_below_limit: "n \<le> 2 ^ 53 \<Longrightarrow> n < int_limit"
  by (simp add: int_limit_def)

lemma old_slab_eval:
  "250000 \<le> x \<Longrightarrow> x - 250000 < int_limit \<Longrightarrow> old_slab_2 x = Inr (Fin (lin c005 (x - 250000)))"
  "500000 \<le> x \<Longrightarrow> x - 500000 < int_limit \<Longrightarrow> old_slab_3 x = Inr (Fin (aff 12500 c02 (x - 500000)))"
  "1000000 \<le> x \<Longrightarrow> x - 1000000 < int_limit \<Longrightarrow> old_slab_4 x = Inr (Fin (aff 112500 c03 (x - 1000000)))"
  unfolding old_slab_2_def old_slab_3_def old_slab_4_def to_double_literals
  using c_bounds by (simp_all add: slab_lin slab_aff)

lemma new_slab_eval:
  "300000 \<le> x \<Longrightarrow> x - 300000 < int_limit \<Longrightarrow> new_slab_2 x = Inr (Fin (lin c005 (x - 300000)))"
  "600000 \<le> x \<Longrightarrow> x - 600000 < int_limit \<Longrightarrow> new_slab_3 x = Inr (Fin (aff 15000 c01 (x - 600000)))"
  "900000 \<le> x \<Longrightarrow> x - 900000 < int_limit \<Longrightarrow> new_slab_4 x = Inr (Fin (aff 45000 c015 (x - 900000)))"
  "1200000 \<le> x \<Longrightarrow> x - 1200000 < int_limit \<Longrightarrow> new_slab_5 x = Inr (Fin (aff 90000 c02 (x - 1200000)))"
  "1500000 \<le> x \<Longrightarrow> x - 1500000 < int_limit \<Longrightarrow> new_slab_6 x = Inr (Fin (aff 150000 c03 (x - 1500000)))"
  unfolding new_slab_2_def new_slab_3_def new_slab_4_def new_slab_5_def new_slab_6_def
    to_double_literals
  using c_bounds by (simp_all add: slab_lin slab_aff)

lemma old_slabs_value:
  assumes "x - 1000000 < int_limit"
  shows "(if x \<le> 250000 then old_slab_1 x else if x \<le> 500000 then old_slab_2 x
          else if x \<le> 1000000 then old_slab_3 x else old_slab_4 x) = Inr (Fin (old_base x))"
proof -
  have "x \<le> 1000000 \<Longrightarrow> x - 250000 < int_limit" "x \<le> 1000000 \<Longrightarrow> x - 500000 < int_limit"
    by (simp_all add: int_limit_def)
  then show ?thesis using assms
    by (simp add: old_slab_1_def old_slab_eval old_base_def)
qed

lemma old_value:
  assumes "x - 1000000 < int_limit"
  shows "calculate_old_regime_tax x = Inr (breakdown_of (old_base x))"
  unfolding calculate_old_regime_tax_slabs old_slabs_value [OF assms]
  by (simp add: with_cess_eval [OF old_base_bounds [OF assms]])

lemma old_overflow:
  assumes "int_limit \<le> x - 1000000"
  shows "calculate_old_regime_tax x = Inl OverflowError"
proof -
  have "1000000 < x" using assms by (simp add: int_limit_def)
  then show ?thesis
    unfolding calculate_old_regime_tax_slabs
    by (simp add: old_slab_4_def float_of_int_overflow [OF assms])
qed


lemma rates: "rate c005" "rate c01" "rate c015" "rate c02" "rate c03"
  using c_bounds by (simp_all add: rate_def)

lemma slab_bounds:
  assumes "0 \<le> n" "n < int_limit" "rate r"
  shows "0 \<le> lin r n" and "lin r n \<le> huge"
    and "slab_const c \<Longrightarrow> 0 \<le> aff c r n"
    and "slab_const c \<Longrightarrow> aff c r n \<le> huge"
proof -
  have r: "0 \<le> r" "r \<le> 3 / 8" using assms(3) by (simp_all add: rate_def)
  show "0 \<le> lin r n" using lin_eval(2) [OF assms(1,2) r] .
  show "lin r n \<le> huge" using lin_eval(3) [OF assms(1,2) r] by (simp add: huge_def)
  show "0 \<le> aff c r n" if "slab_const c"
    using aff_eval(2) [OF assms(1,2) r, of c] that by (simp add: slab_const_def)
  show "aff c r n \<le> huge" if "slab_const c"
    using aff_eval(3) [OF assms(1,2) r, of c] that by (simp add: slab_const_def huge_def)
qed

lemma huge_nonneg: "0 \<le> huge"
  by (simp add: huge_def)

lemma slab_below_limit: "n \<le> 1500000 \<Longrightarrow> n < int_limit"
  by (simp add: int_limit_def)

lemma new_base_bounds:
  assumes "x - 1500000 < int_limit"
  shows "0 \<le> new_base x" and "new_base x \<le> huge"
proof -
  have "0 \<le> new_base x \<and> new_base x \<le> huge"
    using assms
    by (simp add: new_base_def slab_bounds slab_below_limit rates slab_const_def huge_nonneg)
  then show "0 \<le> new_base x" and "new_base x \<le> huge" by simp_all
qed

lemma new_slabs_value:
  assumes "x - 1500000 < int_limit"
  shows "(if x \<le> 300000 then new_slab_1 x else if x \<le> 600000 then new_slab_2 x
          else if x \<le> 900000 then new_slab_3 x else if x \<le> 1200000 then new_slab_4 x
          else if x \<le> 1500000 then new_slab_5 x else new_slab_6 x) = Inr (Fin (new_base x))"
  using assms by (simp add: new_slab_1_def new_slab_eval new_base_def slab_below_limit)

lemma new_value:
  assumes "x - 1500000 < int_limit"
  shows "calculate_new_regime_tax x = Inr (breakdown_of (new_base x))"
  unfolding calculate_new_regime_tax_slabs new_slabs_value [OF assms]
  by (simp add: with_cess_eval [OF new_base_bounds [OF assms, unfolded huge_def]])

lemma new_overflow:
  assumes "int_limit \<le> x - 1500000"
  shows "calculate_new_regime_tax x = Inl OverflowError"
proof -
  have "1500000 < x" using assms by (simp add: int_limit_def)
  then show ?thesis
    unfolding calculate_new_regime_tax_slabs
    by (simp add: new_slab_6_def float_of_int_overflow [OF assms])
qed


section \<open>The values at the slab boundaries\<close>

lemma lin_0 [simp]: "lin r 0 = 0"
  by (simp add: lin_def)

lemma aff_0: "0 \<le> c \<Longrightarrow> c < 2 ^ 53 \<Longrightarrow> aff (of_int c) r 0 = of_int c"
  by (simp add: aff_def rnd_of_int)

lemma boundary_products:
  "rnd (250000 * c005) = 12500" "rnd (300000 * c005) = 15000" "rnd (500000 * c02) = 100000"
  "rnd (300000 * c01) = 30000" "rnd (300000 * c015) = 45000" "rnd (300000 * c02) = 60000"
  using rnd_near [of 13 "250000 * c005" 6871947673600000]
    rnd_near [of 13 "300000 * c005" 8246337208320000]
    rnd_near [of 16 "500000 * c02" 6871947673600000]
    rnd_near [of 14 "300000 * c01" 8246337208320000]
    rnd_near [of 15 "300000 * c015" 6184752906240000]
    rnd_near [of 15 "300000 * c02" 8246337208320000]
  by (simp_all add: c005_def c01_def c015_def c02_def)

lemma lin_boundary: "lin c005 250000 = 12500" "lin c005 300000 = 15000"
  using rnd_of_int [of 250000] rnd_of_int [of 300000] boundary_products(1,2)
  by (simp_all add: lin_def)

lemma aff_boundary:
  "aff 12500 c02 500000 = 112500" "aff 15000 c01 300000 = 45000"
  "aff 45000 c015 300000 = 90000" "aff 90000 c02 300000 = 150000"
  using rnd_of_int [of 500000] rnd_of_int [of 300000] boundary_products(3-6)
    rnd_of_int [of 112500] rnd_of_int [of 45000] rnd_of_int [of 90000] rnd_of_int [of 150000]
  by (simp_all add: aff_def lin_def)

lemma aff_start:
  "aff 12500 r 0 = 12500" "aff 112500 r 0 = 112500" "aff 15000 r 0 = 15000"
  "aff 45000 r 0 = 45000" "aff 90000 r 0 = 90000" "aff 150000 r 0 = 150000"
  using aff_0 [of 12500 r] aff_0 [of 112500 r] aff_0 [of 15000 r] aff_0 [of 45000 r]
    aff_0 [of 90000 r] aff_0 [of 150000 r]
  by simp_all

lemma breakdown_of_0: "breakdown_of 0 = \<lparr>base_tax = Fin 0, cess = Fin 0, total_tax = Fin 0\<rparr>"
  by (simp add: breakdown_of_def gross_def)

lemma old_zero:
  assumes "x \<le> 250000"
  shows "calculate_old_regime_tax x = Inr \<lparr>base_tax = Fin 0, cess = Fin 0, total_tax = Fin 0\<rparr>"
proof -
  have "x - 1000000 < int_limit" using assms by (simp add: int_limit_def)
  then show ?thesis using assms by (simp add: old_value old_base_def breakdown_of_0)
qed

lemma new_zero:
  assumes "x \<le> 300000"
  shows "calculate_new_regime_tax x = Inr \<lparr>base_tax = Fin 0, cess = Fin 0, total_tax = Fin 0\<rparr>"
proof -
  have "x - 1500000 < int_limit" using assms by (simp add: int_limit_def)
  then show ?thesis using assms by (simp add: new_value new_base_def breakdown_of_0)
qed

section \<open>The claims\<close>

text \<open>
  C4. A negative income is taxed as the income 0 is: under both regimes the calculator returns
  the breakdown it returns for 0, whose base tax, cess and total are all 0. (The code has no
  clamp; every negative income falls into the first slab.)
\<close>

theorem negative_income_taxed_as_zero:
  assumes "x < 0"
  shows "calculate_old_regime_tax x = calculate_old_regime_tax 0
    \<and> calculate_new_regime_tax x = calculate_new_regime_tax 0
    \<and> calculate_old_regime_tax 0 = Inr \<lparr>base_tax = Fin 0, cess = Fin 0, total_tax = Fin 0\<rparr>
    \<and> calculate_new_regime_tax 0 = Inr \<lparr>base_tax = Fin 0, cess = Fin 0, total_tax = Fin 0\<rparr>"
  using assms by (simp add: old_zero new_zero)

theorem negative_income_taxed_as_zero_witness:
  "(- 5 :: int) < 0
    \<and> calculate_old_regime_tax (- 5) = calculate_old_regime_tax 0
    \<and> calculate_new_regime_tax (- 5) = calculate_new_regime_tax 0
    \<and> calculate_old_regime_tax 0 = Inr \<lparr>base_tax = Fin 0, cess = Fin 0, total_tax = Fin 0\<rparr>
    \<and> calculate_new_regime_tax 0 = Inr \<lparr>base_tax = Fin 0, cess = Fin 0, total_tax = Fin 0\<rparr>"
  using negative_income_taxed_as_zero [of "- 5"] by simp

text \<open>
  C7. Both bracket functions are continuous at every slab boundary: at each of 250,000,
  500,000 and 1,000,000 (old regime) and of 300,000, 600,000, 900,000, 1,200,000 and 1,500,000
  (new regime) the formula of the lower slab and the formula of the next slab give the same
  tax.
\<close>

theorem slabs_continuous:
  "old_slab_1 250000 = old_slab_2 250000
    \<and> old_slab_2 500000 = old_slab_3 500000
    \<and> old_slab_3 1000000 = old_slab_4 1000000
    \<and> new_slab_1 300000 = new_slab_2 300000
    \<and> new_slab_2 600000 = new_slab_3 600000
    \<and> new_slab_3 900000 = new_slab_4 900000
    \<and> new_slab_4 1200000 = new_slab_5 1200000
    \<and> new_slab_5 1500000 = new_slab_6 1500000"
  by (simp add: old_slab_1_def new_slab_1_def old_slab_eval new_slab_eval slab_below_limit
      lin_boundary aff_boundary aff_start)

text \<open>
  C8. Whatever the five inputs, the list of tips contains the suggestion of the National
  Pension Scheme, so it is never empty.
\<close>

theorem nps_tip_always_given:
  "''Consider investing in NPS (National Pension Scheme) for additional deduction of up to Rs. 50,000 under Section 80CCD(1B).''
      \<in> set (get_tax_saving_tips income investments health_insurance home_loan edu_loan)
    \<and> 1 \<le> length (get_tax_saving_tips income investments health_insurance home_loan edu_loan)"
  by (simp add: get_tax_saving_tips_def Let_def)


lemma to_double_nonneg:
  assumes "0 \<le> q"
  shows "fle (Fin 0) (to_double q)"
  using rnd_nonneg [OF assms] by (simp add: to_double_def Let_def)

lemma to_double_0: "to_double 0 = Fin 0"
  by (simp add: to_double_def)

lemma fsub_Fin: "fsub (Fin a) (Fin b) = to_double (a - b)"
  by (simp add: fsub_def)

text \<open>
  C5. For breakdowns whose totals are numbers (finite floats, as every total returned by the
  calculators is): the verdict is the old regime with savings \<^verbatim>\<open>new - old\<close> when the old
  total is strictly less, and otherwise, a tie included, the new regime with savings
  \<^verbatim>\<open>old - new\<close>; a tie gives the new regime with savings 0, and the savings are never
  negative.
\<close>

theorem better_regime_verdict:
  assumes "total_tax old_regime_tax = Fin a" and "total_tax new_regime_tax = Fin b"
  shows "(a < b \<longrightarrow> get_better_regime old_regime_tax new_regime_tax
            = \<lparr>regime = ''Old Regime'',
                savings = fsub (total_tax new_regime_tax) (total_tax old_regime_tax)\<rparr>)
    \<and> (b \<le> a \<longrightarrow> get_better_regime old_regime_tax new_regime_tax
            = \<lparr>regime = ''New Regime'',
                savings = fsub (total_tax old_regime_tax) (total_tax new_regime_tax)\<rparr>)
    \<and> (a = b \<longrightarrow> get_better_regime old_regime_tax new_regime_tax
            = \<lparr>regime = ''New Regime'', savings = Fin 0\<rparr>)
    \<and> fle (Fin 0) (savings (get_better_regime old_regime_tax new_regime_tax))"
proof (cases "a < b")
  case True
  then have "fle (Fin 0) (to_double (b - a))" by (intro to_double_nonneg) simp
  then show ?thesis using True assms by (simp add: get_better_regime_def fsub_Fin)
next
  case False
  then have "fle (Fin 0) (to_double (a - b))" by (intro to_double_nonneg) simp
  then show ?thesis
    using False assms by (auto simp add: get_better_regime_def fsub_Fin to_double_0)
qed

theorem better_regime_verdict_witness:
  "get_better_regime \<lparr>base_tax = Fin 32500, cess = Fin 1300, total_tax = Fin 33800\<rparr>
       \<lparr>base_tax = Fin 15000, cess = Fin 600, total_tax = Fin 15600\<rparr>
     = \<lparr>regime = ''New Regime'', savings = fsub (Fin 33800) (Fin 15600)\<rparr>
   \<and> get_better_regime \<lparr>base_tax = Fin 0, cess = Fin 0, total_tax = Fin 0\<rparr>
       \<lparr>base_tax = Fin 0, cess = Fin 0, total_tax = Fin 0\<rparr>
     = \<lparr>regime = ''New Regime'', savings = Fin 0\<rparr>
   \<and> get_better_regime \<lparr>base_tax = Fin 0, cess = Fin 0, total_tax = Fin 0\<rparr>
       \<lparr>base_tax = Fin 15000, cess = Fin 600, total_tax = Fin 15600\<rparr>
     = \<lparr>regime = ''Old Regime'', savings = fsub (Fin 15600) (Fin 0)\<rparr>"
  using better_regime_verdict [of "\<lparr>base_tax = Fin 32500, cess = Fin 1300, total_tax = Fin 33800\<rparr>"
      33800 "\<lparr>base_tax = Fin 15000, cess = Fin 600, total_tax = Fin 15600\<rparr>" 15600]
    better_regime_verdict [of "\<lparr>base_tax = Fin 0, cess = Fin 0, total_tax = Fin 0\<rparr>"
      0 "\<lparr>base_tax = Fin 0, cess = Fin 0, total_tax = Fin 0\<rparr>" 0]
    better_regime_verdict [of "\<lparr>base_tax = Fin 0, cess = Fin 0, total_tax = Fin 0\<rparr>"
      0 "\<lparr>base_tax = Fin 15000, cess = Fin 600, total_tax = Fin 15600\<rparr>" 15600]
  by (simp add: fsub_Fin to_double_0)


lemma to_double_of_int:
  assumes "0 \<le> n" "n < int_limit"
  shows "to_double (of_int n) = Fin (rnd (of_int n))"
  using float_of_int_finite(2,3) [OF assms] by (simp add: to_double_def Let_def)

lemma old_table:
  assumes "x - 1000000 < int_limit"
  shows "Fin (old_base x) =
     (if x \<le> 250000 then Fin 0
      else if x \<le> 500000 then fmul (Fin (of_int (x - 250000))) (to_double (5 / 100))
      else if x \<le> 1000000
        then fadd (Fin 12500) (fmul (Fin (of_int (x - 500000))) (to_double (2 / 10)))
      else fadd (Fin 112500) (fmul (to_double (of_int (x - 1000000))) (to_double (3 / 10))))"
proof -
  have exact: "rnd (of_int n) = of_int n" if "0 \<le> n" "n \<le> 750000" for n
    using that by (intro rnd_of_int) simp_all
  have r: "0 \<le> c005" "c005 \<le> 3 / 8" "0 \<le> c02" "c02 \<le> 3 / 8" "0 \<le> c03" "c03 \<le> 3 / 8"
    using c_bounds by simp_all
  have s2: "fmul (Fin (of_int (x - 250000))) (Fin c005) = Fin (lin c005 (x - 250000))"
    if "250000 < x" "x \<le> 500000"
    using lin_eval(1) [OF _ _ r(1,2), of "x - 250000"] exact [of "x - 250000"] that
    by (simp add: slab_below_limit)
  have s3: "fadd (Fin 12500) (fmul (Fin (of_int (x - 500000))) (Fin c02))
      = Fin (aff 12500 c02 (x - 500000))"
    if "500000 < x" "x \<le> 1000000"
    using aff_eval(1) [OF _ _ r(3,4), of "x - 500000" 12500] exact [of "x - 500000"] that
    by (simp add: slab_below_limit)
  have s4: "fadd (Fin 112500) (fmul (to_double (of_int (x - 1000000))) (Fin c03))
      = Fin (aff 112500 c03 (x - 1000000))"
    if "1000000 < x"
    using aff_eval(1) [OF _ assms r(5,6), of 112500] to_double_of_int [OF _ assms] that
    by simp
  show ?thesis
    unfolding to_double_literals old_base_def using s2 s3 s4 by simp
qed

lemma new_table:
  assumes "x - 1500000 < int_limit"
  shows "Fin (new_base x) =
     (if x \<le> 300000 then Fin 0
      else if x \<le> 600000 then fmul (Fin (of_int (x - 300000))) (to_double (5 / 100))
      else if x \<le> 900000
        then fadd (Fin 15000) (fmul (Fin (of_int (x - 600000))) (to_double (1 / 10)))
      else if x \<le> 1200000
        then fadd (Fin 45000) (fmul (Fin (of_int (x - 900000))) (to_double (15 / 100)))
      else if x \<le> 1500000
        then fadd (Fin 90000) (fmul (Fin (of_int (x - 1200000))) (to_double (2 / 10)))
      else fadd (Fin 150000) (fmul (to_double (of_int (x - 1500000))) (to_double (3 / 10))))"
proof -
  have exact: "rnd (of_int n) = of_int n" if "0 \<le> n" "n \<le> 750000" for n
    using that by (intro rnd_of_int) simp_all
  have r: "0 \<le> c005" "c005 \<le> 3 / 8" "0 \<le> c01" "c01 \<le> 3 / 8" "0 \<le> c015" "c015 \<le> 3 / 8"
    "0 \<le> c02" "c02 \<le> 3 / 8" "0 \<le> c03" "c03 \<le> 3 / 8"
    using c_bounds by simp_all
  have s2: "fmul (Fin (of_int (x - 300000))) (Fin c005) = Fin (lin c005 (x - 300000))"
    if "300000 < x" "x \<le> 600000"
    using lin_eval(1) [OF _ _ r(1,2), of "x - 300000"] exact [of "x - 300000"] that
    by (simp add: slab_below_limit)
  have s3: "fadd (Fin 15000) (fmul (Fin (of_int (x - 600000))) (Fin c01))
      = Fin (aff 15000 c01 (x - 600000))"
    if "600000 < x" "x \<le> 900000"
    using aff_eval(1) [OF _ _ r(3,4), of "x - 600000" 15000] exact [of "x - 600000"] that
    by (simp add: slab_below_limit)
  have s4: "fadd (Fin 45000) (fmul (Fin (of_int (x - 900000))) (Fin c015))
      = Fin (aff 45000 c015 (x - 900000))"
    if "900000 < x" "x \<le> 1200000"
    using aff_eval(1) [OF _ _ r(5,6), of "x - 900000" 45000] exact [of "x - 900000"] that
    by (simp add: slab_below_limit)
  have s5: "fadd (Fin 90000) (fmul (Fin (of_int (x - 1200000))) (Fin c02))
      = Fin (aff 90000 c02 (x - 1200000))"
    if "1200000 < x" "x \<le> 1500000"
    using aff_eval(1) [OF _ _ r(7,8), of "x - 1200000" 90000] exact [of "x - 1200000"] that
    by (simp add: slab_below_limit)
  have s6: "fadd (Fin 150000) (fmul (to_double (of_int (x - 1500000))) (Fin c03))
      = Fin (aff 150000 c03 (x - 1500000))"
    if "1500000 < x"
    using aff_eval(1) [OF _ assms r(9,10), of 150000] to_double_of_int [OF _ assms] that
    by simp
  show ?thesis
    unfolding to_double_literals new_base_def using s2 s3 s4 s5 s6 by simp
qed

lemma with_cess_fields:
  "base_tax (with_cess tax) = tax"
  "cess (with_cess tax) = fmul tax (to_double (4 / 100))"
  "total_tax (with_cess tax) = fadd tax (cess (with_cess tax))"
  by (simp_all add: with_cess_def Let_def)

lemma with_cess_relations:
  "cess (with_cess tax) = fmul (base_tax (with_cess tax)) (to_double (4 / 100))
    \<and> total_tax (with_cess tax) = fadd (base_tax (with_cess tax)) (cess (with_cess tax))"
  by (simp add: with_cess_def Let_def)

lemma breakdown_of_fields:
  "base_tax (breakdown_of t) = Fin t" "cess (breakdown_of t) = Fin (rnd (t * c004))"
  "total_tax (breakdown_of t) = Fin (gross t)"
  by (simp_all add: breakdown_of_def)

text \<open>
  C1, as the code has it. For every income \<open>x\<close> with \<open>x - 1000000 < int_limit\<close> the old-regime
  calculator returns a breakdown whose base tax follows the four slabs, the upper bound of
  each slab included: 0 up to 250,000; \<^verbatim>\<open>(x - 250000) * 0.05\<close> up to 500,000;
  \<^verbatim>\<open>12500 + (x - 500000) * 0.2\<close> up to 1,000,000; \<^verbatim>\<open>112500 + (x - 1000000) * 0.3\<close> above,
  each product and sum a float operation, the base tax a non-negative number. Up to 250,000
  base tax, cess and total are 0. (From \<open>x - 1000000 = int_limit\<close> on, the conversion of the
  difference to a float raises \<^verbatim>\<open>OverflowError\<close>.)
\<close>

theorem old_regime_slab_table:
  assumes "x - 1000000 < int_limit"
  shows "\<exists>r t. calculate_old_regime_tax x = Inr r \<and> base_tax r = Fin t \<and> 0 \<le> t
    \<and> base_tax r =
        (if x \<le> 250000 then Fin 0
         else if x \<le> 500000 then fmul (Fin (of_int (x - 250000))) (to_double (5 / 100))
         else if x \<le> 1000000
           then fadd (Fin 12500) (fmul (Fin (of_int (x - 500000))) (to_double (2 / 10)))
         else fadd (Fin 112500) (fmul (to_double (of_int (x - 1000000))) (to_double (3 / 10))))
    \<and> (x \<le> 250000 \<longrightarrow> base_tax r = Fin 0 \<and> cess r = Fin 0 \<and> total_tax r = Fin 0)"
proof (intro exI conjI)
  show "calculate_old_regime_tax x = Inr (breakdown_of (old_base x))"
    using assms by (rule old_value)
  show "base_tax (breakdown_of (old_base x)) = Fin (old_base x)"
    by (rule breakdown_of_fields)
  show "0 \<le> old_base x" using assms by (rule old_base_bounds)
  show "base_tax (breakdown_of (old_base x)) =
        (if x \<le> 250000 then Fin 0
         else if x \<le> 500000 then fmul (Fin (of_int (x - 250000))) (to_double (5 / 100))
         else if x \<le> 1000000
           then fadd (Fin 12500) (fmul (Fin (of_int (x - 500000))) (to_double (2 / 10)))
         else fadd (Fin 112500) (fmul (to_double (of_int (x - 1000000))) (to_double (3 / 10))))"
    unfolding breakdown_of_fields using assms by (rule old_table)
  show "x \<le> 250000 \<longrightarrow> base_tax (breakdown_of (old_base x)) = Fin 0
      \<and> cess (breakdown_of (old_base x)) = Fin 0 \<and> total_tax (breakdown_of (old_base x)) = Fin 0"
    by (simp add: old_base_def breakdown_of_0)
qed

theorem old_regime_slab_table_witness:
  "(825000::int) - 1000000 < int_limit
    \<and> (\<exists>r t. calculate_old_regime_tax 825000 = Inr r \<and> base_tax r = Fin t \<and> 0 \<le> t
      \<and> base_tax r = fadd (Fin 12500) (fmul (Fin 325000) (to_double (2 / 10))))
    \<and> (\<exists>r. calculate_old_regime_tax 100000 = Inr r
      \<and> base_tax r = Fin 0 \<and> cess r = Fin 0 \<and> total_tax r = Fin 0)"
  using old_regime_slab_table [of 825000] old_regime_slab_table [of 100000]
  by (simp add: int_limit_def) blast

theorem old_regime_overflow_counterexample:
  "calculate_old_regime_tax (2 ^ 1024) = Inl OverflowError"
  by (rule old_overflow) (simp add: int_limit_def)

text \<open>
  C2, as the code has it. For every income \<open>x\<close> with \<open>x - 1500000 < int_limit\<close> the new-regime
  calculator returns a breakdown whose base tax follows the six slabs, the upper bound of each
  slab included: 0 up to 300,000; \<^verbatim>\<open>(x - 300000) * 0.05\<close> up to 600,000;
  \<^verbatim>\<open>15000 + (x - 600000) * 0.1\<close> up to 900,000; \<^verbatim>\<open>45000 + (x - 900000) * 0.15\<close> up to
  1,200,000; \<^verbatim>\<open>90000 + (x - 1200000) * 0.2\<close> up to 1,500,000;
  \<^verbatim>\<open>150000 + (x - 1500000) * 0.3\<close> above, each product and sum a float operation, the
  base tax a non-negative number. Up to 300,000 base tax, cess and total are 0. (From
  \<open>x - 1500000 = int_limit\<close> on, the conversion of the difference to a float raises
  \<^verbatim>\<open>OverflowError\<close>.)
\<close>

theorem new_regime_slab_table:
  assumes "x - 1500000 < int_limit"
  shows "\<exists>r t. calculate_new_regime_tax x = Inr r \<and> base_tax r = Fin t \<and> 0 \<le> t
    \<and> base_tax r =
        (if x \<le> 300000 then Fin 0
         else if x \<le> 600000 then fmul (Fin (of_int (x - 300000))) (to_double (5 / 100))
         else if x \<le> 900000
           then fadd (Fin 15000) (fmul (Fin (of_int (x - 600000))) (to_double (1 / 10)))
         else if x \<le> 1200000
           then fadd (Fin 45000) (fmul (Fin (of_int (x - 900000))) (to_double (15 / 100)))
         else if x \<le> 1500000
           then fadd (Fin 90000) (fmul (Fin (of_int (x - 1200000))) (to_double (2 / 10)))
         else fadd (Fin 150000) (fmul (to_double (of_int (x - 1500000))) (to_double (3 / 10))))
    \<and> (x \<le> 300000 \<longrightarrow> base_tax r = Fin 0 \<and> cess r = Fin 0 \<and> total_tax r = Fin 0)"
proof (intro exI conjI)
  show "calculate_new_regime_tax x = Inr (breakdown_of (new_base x))"
    using assms by (rule new_value)
  show "base_tax (breakdown_of (new_base x)) = Fin (new_base x)"
    by (rule breakdown_of_fields)
  show "0 \<le> new_base x" using assms by (rule new_base_bounds)
  show "base_tax (breakdown_of (new_base x)) =
        (if x \<le> 300000 then Fin 0
         else if x \<le> 600000 then fmul (Fin (of_int (x - 300000))) (to_double (5 / 100))
         else if x \<le> 900000
           then fadd (Fin 15000) (fmul (Fin (of_int (x - 600000))) (to_double (1 / 10)))
         else if x \<le> 1200000
           then fadd (Fin 45000) (fmul (Fin (of_int (x - 900000))) (to_double (15 / 100)))
         else if x \<le> 1500000
           then fadd (Fin 90000) (fmul (Fin (of_int (x - 1200000))) (to_double (2 / 10)))
         else fadd (Fin 150000) (fmul (to_double (of_int (x - 1500000))) (to_double (3 / 10))))"
    unfolding breakdown_of_fields using assms by (rule new_table)
  show "x \<le> 300000 \<longrightarrow> base_tax (breakdown_of (new_base x)) = Fin 0
      \<and> cess (breakdown_of (new_base x)) = Fin 0 \<and> total_tax (breakdown_of (new_base x)) = Fin 0"
    by (simp add: new_base_def breakdown_of_0)
qed

theorem new_regime_slab_table_witness:
  "(1000000::int) - 1500000 < int_limit
    \<and> (\<exists>r t. calculate_new_regime_tax 1000000 = Inr r \<and> base_tax r = Fin t \<and> 0 \<le> t
      \<and> base_tax r = fadd (Fin 45000) (fmul (Fin 100000) (to_double (15 / 100))))
    \<and> (\<exists>r. calculate_new_regime_tax 300000 = Inr r
      \<and> base_tax r = Fin 0 \<and> cess r = Fin 0 \<and> total_tax r = Fin 0)"
  using new_regime_slab_table [of 1000000] new_regime_slab_table [of 300000]
  by (simp add: int_limit_def) blast

theorem new_regime_overflow_counterexample:
  "calculate_new_regime_tax (2 ^ 1024 + 1500000) = Inl OverflowError"
  by (rule new_overflow) (simp add: int_limit_def)

text \<open>
  C3, as the code has it. Wherever a calculator returns (\<open>x - 1000000 < int_limit\<close> under
  the old regime, \<open>x - 1500000 < int_limit\<close> under the new one), the cess of the breakdown is
  the float product \<^verbatim>\<open>base_tax * 0.04\<close> and the total the float sum
  \<^verbatim>\<open>base_tax + cess\<close>.
\<close>

theorem cess_and_total:
  "(x - 1000000 < int_limit \<longrightarrow>
      (\<exists>r. calculate_old_regime_tax x = Inr r
        \<and> cess r = fmul (base_tax r) (to_double (4 / 100))
        \<and> total_tax r = fadd (base_tax r) (cess r)))
    \<and> (x - 1500000 < int_limit \<longrightarrow>
      (\<exists>r. calculate_new_regime_tax x = Inr r
        \<and> cess r = fmul (base_tax r) (to_double (4 / 100))
        \<and> total_tax r = fadd (base_tax r) (cess r)))"
proof (intro conjI impI)
  assume "x - 1000000 < int_limit"
  then have "calculate_old_regime_tax x = Inr (with_cess (Fin (old_base x)))"
    unfolding calculate_old_regime_tax_slabs by (simp add: old_slabs_value)
  then show "\<exists>r. calculate_old_regime_tax x = Inr r
      \<and> cess r = fmul (base_tax r) (to_double (4 / 100))
      \<and> total_tax r = fadd (base_tax r) (cess r)"
    using with_cess_relations [of "Fin (old_base x)"] by (intro exI [of _ "with_cess (Fin (old_base x))"]) (simp only: simp_thms)
next
  assume "x - 1500000 < int_limit"
  then have "calculate_new_regime_tax x = Inr (with_cess (Fin (new_base x)))"
    unfolding calculate_new_regime_tax_slabs by (simp add: new_slabs_value)
  then show "\<exists>r. calculate_new_regime_tax x = Inr r
      \<and> cess r = fmul (base_tax r) (to_double (4 / 100))
      \<and> total_tax r = fadd (base_tax r) (cess r)"
    using with_cess_relations [of "Fin (new_base x)"] by (intro exI [of _ "with_cess (Fin (new_base x))"]) (simp only: simp_thms)
qed

theorem cess_and_total_witness:
  "(600000::int) - 1000000 < int_limit \<and> (600000::int) - 1500000 < int_limit
    \<and> (\<exists>r. calculate_old_regime_tax 600000 = Inr r
        \<and> cess r = fmul (base_tax r) (to_double (4 / 100))
        \<and> total_tax r = fadd (base_tax r) (cess r))
    \<and> (\<exists>r. calculate_new_regime_tax 600000 = Inr r
        \<and> cess r = fmul (base_tax r) (to_double (4 / 100))
        \<and> total_tax r = fadd (base_tax r) (cess r))"
  using cess_and_total [of 600000] by (simp add: int_limit_def)

theorem cess_and_total_counterexample:
  "calculate_old_regime_tax (10 ^ 309) = Inl OverflowError
    \<and> calculate_new_regime_tax (10 ^ 309) = Inl OverflowError"
  by (simp add: old_overflow new_overflow int_limit_def)


section \<open>Monotonicity\<close>

lemma lin_nonneg:
  assumes "0 \<le> n" "0 \<le> r"
  shows "0 \<le> lin r n"
proof -
  have "0 \<le> rnd (of_int n)" using assms(1) by (intro rnd_nonneg) simp
  then have "0 \<le> rnd (of_int n) * r" using assms(2) by simp
  then show ?thesis unfolding lin_def by (rule rnd_nonneg)
qed

lemma lin_mono:
  assumes "0 \<le> m" "m \<le> n" "0 \<le> r"
  shows "lin r m \<le> lin r n"
proof -
  have "(0::rat) \<le> of_int m" "(of_int m :: rat) \<le> of_int n" using assms(1,2) by simp_all
  then have le: "rnd (of_int m) \<le> rnd (of_int n)" by (rule rnd_mono)
  have "0 \<le> rnd (of_int m)" using assms(1) by (intro rnd_nonneg) simp
  then have "0 \<le> rnd (of_int m) * r" using assms(3) by simp
  moreover have "rnd (of_int m) * r \<le> rnd (of_int n) * r"
    using le assms(3) by (rule mult_right_mono)
  ultimately show ?thesis unfolding lin_def by (rule rnd_mono)
qed

lemma aff_mono:
  assumes "0 \<le> m" "m \<le> n" "0 \<le> r" "0 \<le> c"
  shows "aff c r m \<le> aff c r n"
proof -
  have "0 \<le> c + lin r m" using lin_nonneg [OF assms(1,3)] assms(4) by simp
  moreover have "c + lin r m \<le> c + lin r n" using lin_mono [OF assms(1-3)] by simp
  ultimately show ?thesis unfolding aff_def by (rule rnd_mono)
qed

lemma gross_mono:
  assumes "0 \<le> s" "s \<le> t"
  shows "gross s \<le> gross t"
proof -
  have c: "0 \<le> c004" by (rule c_bounds)
  have "0 \<le> s * c004" using assms(1) c by simp
  moreover have "s * c004 \<le> t * c004" using assms(2) c by (rule mult_right_mono)
  ultimately have le: "rnd (s * c004) \<le> rnd (t * c004)" by (rule rnd_mono)
  have "0 \<le> rnd (s * c004)" using assms(1) c by (intro rnd_nonneg) simp
  then have "0 \<le> s + rnd (s * c004)" using assms(1) by simp
  moreover have "s + rnd (s * c004) \<le> t + rnd (t * c004)" using assms(2) le by simp
  ultimately show ?thesis unfolding gross_def by (rule rnd_mono)
qed

text \<open>The range of the base tax within a slab: between the values at its two ends.\<close>

lemma lin_range:
  assumes "0 \<le> n" "n \<le> b" "0 \<le> r"
  shows "0 \<le> lin r n" and "lin r n \<le> lin r b"
  using lin_nonneg [OF assms(1,3)] lin_mono [OF assms] by simp_all

lemma aff_range:
  assumes "0 \<le> n" "n \<le> b" "0 \<le> r" "0 \<le> c"
  shows "aff c r 0 \<le> aff c r n" and "aff c r n \<le> aff c r b"
  using aff_mono [OF _ assms(1,3,4)] aff_mono [OF assms] by simp_all

lemma old_base_range:
  "x \<le> 250000 \<Longrightarrow> old_base x = 0"
  "250000 < x \<Longrightarrow> x \<le> 500000 \<Longrightarrow> 0 \<le> old_base x \<and> old_base x \<le> 12500"
  "500000 < x \<Longrightarrow> x \<le> 1000000 \<Longrightarrow> 12500 \<le> old_base x \<and> old_base x \<le> 112500"
  "1000000 < x \<Longrightarrow> 112500 \<le> old_base x"
proof -
  show "x \<le> 250000 \<Longrightarrow> old_base x = 0" by (simp add: old_base_def)
  show "0 \<le> old_base x \<and> old_base x \<le> 12500" if "250000 < x" "x \<le> 500000"
    using lin_range [of "x - 250000" 250000 c005] that c_bounds(1)
    by (simp add: old_base_def lin_boundary)
  show "12500 \<le> old_base x \<and> old_base x \<le> 112500" if "500000 < x" "x \<le> 1000000"
    using aff_range [of "x - 500000" 500000 c02 12500] that c_bounds(7)
    by (simp add: old_base_def aff_boundary aff_start)
  show "112500 \<le> old_base x" if "1000000 < x"
    using aff_range(1) [of "x - 1000000" "x - 1000000" c03 112500] that c_bounds(9)
    by (simp add: old_base_def aff_start)
qed

lemma new_base_range:
  "x \<le> 300000 \<Longrightarrow> new_base x = 0"
  "300000 < x \<Longrightarrow> x \<le> 600000 \<Longrightarrow> 0 \<le> new_base x \<and> new_base x \<le> 15000"
  "600000 < x \<Longrightarrow> x \<le> 900000 \<Longrightarrow> 15000 \<le> new_base x \<and> new_base x \<le> 45000"
  "900000 < x \<Longrightarrow> x \<le> 1200000 \<Longrightarrow> 45000 \<le> new_base x \<and> new_base x \<le> 90000"
  "1200000 < x \<Longrightarrow> x \<le> 1500000 \<Longrightarrow> 90000 \<le> new_base x \<and> new_base x \<le> 150000"
  "1500000 < x \<Longrightarrow> 150000 \<le> new_base x"
proof -
  show "x \<le> 300000 \<Longrightarrow> new_base x = 0" by (simp add: new_base_def)
  show "0 \<le> new_base x \<and> new_base x \<le> 15000" if "300000 < x" "x \<le> 600000"
    using lin_range [of "x - 300000" 300000 c005] that c_bounds(1)
    by (simp add: new_base_def lin_boundary)
  show "15000 \<le> new_base x \<and> new_base x \<le> 45000" if "600000 < x" "x \<le> 900000"
    using aff_range [of "x - 600000" 300000 c01 15000] that c_bounds(3)
    by (simp add: new_base_def aff_boundary aff_start)
  show "45000 \<le> new_base x \<and> new_base x \<le> 90000" if "900000 < x" "x \<le> 1200000"
    using aff_range [of "x - 900000" 300000 c015 45000] that c_bounds(5)
    by (simp add: new_base_def aff_boundary aff_start)
  show "90000 \<le> new_base x \<and> new_base x \<le> 150000" if "1200000 < x" "x \<le> 1500000"
    using aff_range [of "x - 1200000" 300000 c02 90000] that c_bounds(7)
    by (simp add: new_base_def aff_boundary aff_start)
  show "150000 \<le> new_base x" if "1500000 < x"
    using aff_range(1) [of "x - 1500000" "x - 1500000" c03 150000] that c_bounds(9)
    by (simp add: new_base_def aff_start)
qed

lemma old_base_nonneg: "0 \<le> old_base x"
  using old_base_range [of x] by (cases "x \<le> 250000"; cases "x \<le> 500000"; cases "x \<le> 1000000") simp_all

lemma new_base_nonneg: "0 \<le> new_base x"
  using new_base_range [of x]
  by (cases "x \<le> 300000"; cases "x \<le> 600000"; cases "x \<le> 900000"; cases "x \<le> 1200000";
      cases "x \<le> 1500000") simp_all

lemma old_base_mono:
  assumes "x \<le> y"
  shows "old_base x \<le> old_base y"
proof -
  consider (same2) "250000 < x" "y \<le> 500000" | (same3) "500000 < x" "y \<le> 1000000"
    | (same4) "1000000 < x" | (low) "x \<le> 250000"
    | (x2) "250000 < x" "x \<le> 500000" "500000 < y"
    | (x3) "500000 < x" "x \<le> 1000000" "1000000 < y"
    by linarith
  then show ?thesis
  proof cases
    case same2
    then show ?thesis
      using lin_mono [of "x - 250000" "y - 250000" c005] assms c_bounds(1)
      by (simp add: old_base_def)
  next
    case same3
    then show ?thesis
      using aff_mono [of "x - 500000" "y - 500000" c02 12500] assms c_bounds(7)
      by (simp add: old_base_def)
  next
    case same4
    then show ?thesis
      using aff_mono [of "x - 1000000" "y - 1000000" c03 112500] assms c_bounds(9)
      by (simp add: old_base_def)
  next
    case low
    then show ?thesis using old_base_nonneg [of y] by (simp add: old_base_range(1))
  next
    case x2
    have "old_base x \<le> 12500" using old_base_range(2) [of x] x2 by simp
    moreover have "12500 \<le> old_base y"
      using old_base_range(3,4) [of y] x2(3) by (cases "y \<le> 1000000") simp_all
    ultimately show ?thesis by simp
  next
    case x3
    have "old_base x \<le> 112500" using old_base_range(3) [of x] x3 by simp
    moreover have "112500 \<le> old_base y" using old_base_range(4) [of y] x3(3) by simp
    ultimately show ?thesis by simp
  qed
qed


lemma new_base_above:
  "600000 < y \<Longrightarrow> 15000 \<le> new_base y"
  "900000 < y \<Longrightarrow> 45000 \<le> new_base y"
  "1200000 < y \<Longrightarrow> 90000 \<le> new_base y"
  "1500000 < y \<Longrightarrow> 150000 \<le> new_base y"
proof -
  show d: "150000 \<le> new_base y" if "1500000 < y"
    using new_base_range(6) [of y] that by simp
  show c: "90000 \<le> new_base y" if "1200000 < y"
    using new_base_range(5) [of y] d that by (cases "y \<le> 1500000") simp_all
  show b: "45000 \<le> new_base y" if "900000 < y"
    using new_base_range(4) [of y] c that by (cases "y \<le> 1200000") simp_all
  show "15000 \<le> new_base y" if "600000 < y"
    using new_base_range(3) [of y] b that by (cases "y \<le> 900000") simp_all
qed

lemma new_base_mono:
  assumes "x \<le> y"
  shows "new_base x \<le> new_base y"
proof -
  consider (low) "x \<le> 300000"
    | (same2) "300000 < x" "y \<le> 600000" | (same3) "600000 < x" "y \<le> 900000"
    | (same4) "900000 < x" "y \<le> 1200000" | (same5) "1200000 < x" "y \<le> 1500000"
    | (same6) "1500000 < x"
    | (x2) "300000 < x" "x \<le> 600000" "600000 < y"
    | (x3) "600000 < x" "x \<le> 900000" "900000 < y"
    | (x4) "900000 < x" "x \<le> 1200000" "1200000 < y"
    | (x5) "1200000 < x" "x \<le> 1500000" "1500000 < y"
    by linarith
  then show ?thesis
  proof cases
    case low
    then show ?thesis using new_base_nonneg [of y] by (simp add: new_base_range(1))
  next
    case same2
    then show ?thesis
      using lin_mono [of "x - 300000" "y - 300000" c005] assms c_bounds(1)
      by (simp add: new_base_def)
  next
    case same3
    then show ?thesis
      using aff_mono [of "x - 600000" "y - 600000" c01 15000] assms c_bounds(3)
      by (simp add: new_base_def)
  next
    case same4
    then show ?thesis
      using aff_mono [of "x - 900000" "y - 900000" c015 45000] assms c_bounds(5)
      by (simp add: new_base_def)
  next
    case same5
    then show ?thesis
      using aff_mono [of "x - 1200000" "y - 1200000" c02 90000] assms c_bounds(7)
      by (simp add: new_base_def)
  next
    case same6
    then show ?thesis
      using aff_mono [of "x - 1500000" "y - 1500000" c03 150000] assms c_bounds(9)
      by (simp add: new_base_def)
  next
    case x2
    then show ?thesis using new_base_range(2) [of x] new_base_above(1) [of y] by simp
  next
    case x3
    then show ?thesis using new_base_range(3) [of x] new_base_above(2) [of y] by simp
  next
    case x4
    then show ?thesis using new_base_range(4) [of x] new_base_above(3) [of y] by simp
  next
    case x5
    then show ?thesis using new_base_range(5) [of x] new_base_above(4) [of y] by simp
  qed
qed

text \<open>
  C6, as the code has it. Under both regimes the total tax does not decrease as the income
  grows, wherever the calculator returns for the larger income (and then it returns for the
  smaller one as well): \<open>y - 1000000 < int_limit\<close> under the old regime,
  \<open>y - 1500000 < int_limit\<close> under the new one.
\<close>

theorem total_tax_monotone:
  assumes "x \<le> y"
  shows "(y - 1000000 < int_limit \<longrightarrow>
      (\<exists>rx ry. calculate_old_regime_tax x = Inr rx \<and> calculate_old_regime_tax y = Inr ry
        \<and> fle (total_tax rx) (total_tax ry)))
    \<and> (y - 1500000 < int_limit \<longrightarrow>
      (\<exists>rx ry. calculate_new_regime_tax x = Inr rx \<and> calculate_new_regime_tax y = Inr ry
        \<and> fle (total_tax rx) (total_tax ry)))"
proof (intro conjI impI)
  assume y: "y - 1000000 < int_limit"
  then have x: "x - 1000000 < int_limit" using assms by simp
  have "gross (old_base x) \<le> gross (old_base y)"
    using old_base_nonneg old_base_mono [OF assms] by (rule gross_mono)
  then have "fle (total_tax (breakdown_of (old_base x))) (total_tax (breakdown_of (old_base y)))"
    by (simp add: breakdown_of_fields)
  then show "\<exists>rx ry. calculate_old_regime_tax x = Inr rx \<and> calculate_old_regime_tax y = Inr ry
      \<and> fle (total_tax rx) (total_tax ry)"
    using old_value [OF x] old_value [OF y] by blast
next
  assume y: "y - 1500000 < int_limit"
  then have x: "x - 1500000 < int_limit" using assms by simp
  have "gross (new_base x) \<le> gross (new_base y)"
    using new_base_nonneg new_base_mono [OF assms] by (rule gross_mono)
  then have "fle (total_tax (breakdown_of (new_base x))) (total_tax (breakdown_of (new_base y)))"
    by (simp add: breakdown_of_fields)
  then show "\<exists>rx ry. calculate_new_regime_tax x = Inr rx \<and> calculate_new_regime_tax y = Inr ry
      \<and> fle (total_tax rx) (total_tax ry)"
    using new_value [OF x] new_value [OF y] by blast
qed

theorem total_tax_monotone_witness:
  "(600000::int) \<le> 825000 \<and> (825000::int) - 1000000 < int_limit
    \<and> (825000::int) - 1500000 < int_limit
    \<and> (\<exists>rx ry. calculate_old_regime_tax 600000 = Inr rx \<and> calculate_old_regime_tax 825000 = Inr ry
        \<and> fle (total_tax rx) (total_tax ry))
    \<and> (\<exists>rx ry. calculate_new_regime_tax 600000 = Inr rx \<and> calculate_new_regime_tax 825000 = Inr ry
        \<and> fle (total_tax rx) (total_tax ry))"
  using total_tax_monotone [of 600000 825000] by (simp add: int_limit_def)

theorem total_tax_monotone_counterexample:
  "(0::int) \<le> 10 ^ 400
    \<and> calculate_old_regime_tax 0 = Inr \<lparr>base_tax = Fin 0, cess = Fin 0, total_tax = Fin 0\<rparr>
    \<and> calculate_old_regime_tax (10 ^ 400) = Inl OverflowError
    \<and> calculate_new_regime_tax 0 = Inr \<lparr>base_tax = Fin 0, cess = Fin 0, total_tax = Fin 0\<rparr>
    \<and> calculate_new_regime_tax (10 ^ 400) = Inl OverflowError"
  by (simp add: old_zero new_zero old_overflow new_overflow int_limit_def)


section \<open>The error of one rounding\<close>

lemma rnd_relative_error:
  assumes "2 powi (- 1022) \<le> q"
  shows "\<bar>rnd q - q\<bar> \<le> q / 2 ^ 53"
proof -
  have qpos: "0 < q" using assms two_powi_pos [of "- 1022"] by linarith
  have "2 powi (- 1022) < (2::rat) powi (binade q + 1)"
    using assms binade_bounds(2) [OF qpos] by linarith
  then have "- 1022 < binade q + 1" by (simp only: two_powi_less_iff)
  then have "- 1022 \<le> binade q" by simp
  then have "spacing q = binade q - 52" using qpos by (simp add: spacing_def)
  then have "ulp q = 2 powi binade q / 2 ^ 52" by (simp add: ulp_def two_powi_diff)
  then have "ulp q / 2 = 2 powi binade q / 2 ^ 53" by simp
  also have "\<dots> \<le> q / 2 ^ 53"
    using binade_bounds(1) [OF qpos] by (intro divide_right_mono) simp_all
  finally show ?thesis using rnd_error [of q] by linarith
qed

lemma rnd_relative:
  assumes "1 / 32 \<le> q"
  shows "q - q / 2 ^ 53 \<le> rnd q" and "rnd q \<le> q + q / 2 ^ 53"
proof -
  have "(2::rat) powi (- 1022) \<le> 2 powi (- 5)" by (simp only: two_powi_le_iff)
  also have "\<dots> = 1 / 32" by simp
  finally have "2 powi (- 1022) \<le> q" using assms by linarith
  then have "\<bar>rnd q - q\<bar> \<le> q / 2 ^ 53" by (rule rnd_relative_error)
  then show "q - q / 2 ^ 53 \<le> rnd q" and "rnd q \<le> q + q / 2 ^ 53" by linarith+
qed


section \<open>The new regime against the old one\<close>

lemma aff_le_aff:
  fixes M N :: rat
  assumes "0 \<le> m" "m < 2 ^ 53" "0 \<le> n" "n < 2 ^ 53" "of_int m = M" "of_int n = N"
    and "0 \<le> c'" "1 / 32 \<le> M * r'" "1 / 32 \<le> N * r"
    and "c' + (M * r' + M * r' / 2 ^ 53) \<le> c + (N * r - N * r / 2 ^ 53)"
  shows "aff c' r' m \<le> aff c r n"
proof -
  have "0 \<le> rnd (M * r')" using assms(8) by (intro rnd_nonneg) linarith
  then have lo: "0 \<le> c' + rnd (M * r')" using assms(7) by simp
  have "c' + rnd (M * r') \<le> c + rnd (N * r)"
    using rnd_relative(2) [OF assms(8)] rnd_relative(1) [OF assms(9)] assms(10) by linarith
  with lo have "rnd (c' + rnd (M * r')) \<le> rnd (c + rnd (N * r))" by (rule rnd_mono)
  moreover have "rnd (of_int m) = M" "rnd (of_int n) = N"
    using rnd_of_int [OF assms(1,2)] rnd_of_int [OF assms(3,4)] assms(5,6) by simp_all
  ultimately show ?thesis by (simp add: aff_def lin_def)
qed

lemma lin_le_aff:
  fixes M N :: rat
  assumes "0 \<le> m" "m < 2 ^ 53" "0 \<le> n" "n < 2 ^ 53" "of_int m = M" "of_int n = N"
    and "0 \<le> M * r'" "1 / 32 \<le> N * r"
    and "M * r' \<le> c + (N * r - N * r / 2 ^ 53)"
  shows "lin r' m \<le> aff c r n"
proof -
  have "M * r' \<le> c + rnd (N * r)"
    using rnd_relative(1) [OF assms(8)] assms(9) by linarith
  with assms(7) have "rnd (M * r') \<le> rnd (c + rnd (N * r))" by (rule rnd_mono)
  moreover have "rnd (of_int m) = M" "rnd (of_int n) = N"
    using rnd_of_int [OF assms(1,2)] rnd_of_int [OF assms(3,4)] assms(5,6) by simp_all
  ultimately show ?thesis by (simp add: aff_def lin_def)
qed

lemma region_4:
  assumes "500000 < x" "x \<le> 600000"
  shows "lin c005 (x - 300000) \<le> aff 12500 c02 (x - 500000)"
proof -
  define X :: rat where "X = of_int x"
  have X: "500001 \<le> X" "X \<le> 600000" using assms by (simp_all add: X_def)
  show ?thesis
  proof (rule lin_le_aff [where M = "X - 300000" and N = "X - 500000"])
    show "0 \<le> x - 300000" "x - 300000 < 2 ^ 53" "0 \<le> x - 500000" "x - 500000 < 2 ^ 53"
      using assms by simp_all
    show "of_int (x - 300000) = X - 300000" "of_int (x - 500000) = X - 500000"
      by (simp_all add: X_def)
    show "0 \<le> (X - 300000) * c005" using X by (simp add: c005_def)
    show "1 / 32 \<le> (X - 500000) * c02" using X by (simp add: c02_def)
    show "(X - 300000) * c005
        \<le> 12500 + ((X - 500000) * c02 - (X - 500000) * c02 / 2 ^ 53)"
      using X by (simp add: c005_def c02_def field_simps)
  qed
qed


lemma region_5:
  assumes "600000 < x" "x \<le> 900000"
  shows "aff 15000 c01 (x - 600000) \<le> aff 12500 c02 (x - 500000)"
proof -
  define X :: rat where "X = of_int x"
  have X: "600001 \<le> X" "X \<le> 900000" using assms by (simp_all add: X_def)
  show ?thesis
  proof (rule aff_le_aff [where M = "X - 600000" and N = "X - 500000"])
    show "0 \<le> x - 600000" "x - 600000 < 2 ^ 53" "0 \<le> x - 500000" "x - 500000 < 2 ^ 53"
      using assms by simp_all
    show "of_int (x - 600000) = X - 600000" "of_int (x - 500000) = X - 500000"
      by (simp_all add: X_def)
    show "(0::rat) \<le> 15000" by simp
    show "1 / 32 \<le> (X - 600000) * c01" using X by (simp add: c01_def)
    show "1 / 32 \<le> (X - 500000) * c02" using X by (simp add: c02_def)
    show "15000 + ((X - 600000) * c01 + (X - 600000) * c01 / 2 ^ 53)
        \<le> 12500 + ((X - 500000) * c02 - (X - 500000) * c02 / 2 ^ 53)"
      using X by (simp add: c01_def c02_def field_simps)
  qed
qed

lemma region_6:
  assumes "900000 < x" "x \<le> 1000000"
  shows "aff 45000 c015 (x - 900000) \<le> aff 12500 c02 (x - 500000)"
proof -
  define X :: rat where "X = of_int x"
  have X: "900001 \<le> X" "X \<le> 1000000" using assms by (simp_all add: X_def)
  show ?thesis
  proof (rule aff_le_aff [where M = "X - 900000" and N = "X - 500000"])
    show "0 \<le> x - 900000" "x - 900000 < 2 ^ 53" "0 \<le> x - 500000" "x - 500000 < 2 ^ 53"
      using assms by simp_all
    show "of_int (x - 900000) = X - 900000" "of_int (x - 500000) = X - 500000"
      by (simp_all add: X_def)
    show "(0::rat) \<le> 45000" by simp
    show "1 / 32 \<le> (X - 900000) * c015" using X by (simp add: c015_def)
    show "1 / 32 \<le> (X - 500000) * c02" using X by (simp add: c02_def)
    show "45000 + ((X - 900000) * c015 + (X - 900000) * c015 / 2 ^ 53)
        \<le> 12500 + ((X - 500000) * c02 - (X - 500000) * c02 / 2 ^ 53)"
      using X by (simp add: c015_def c02_def field_simps)
  qed
qed

lemma region_7:
  assumes "1000000 < x" "x \<le> 1200000"
  shows "aff 45000 c015 (x - 900000) \<le> aff 112500 c03 (x - 1000000)"
proof -
  define X :: rat where "X = of_int x"
  have X: "1000001 \<le> X" "X \<le> 1200000" using assms by (simp_all add: X_def)
  show ?thesis
  proof (rule aff_le_aff [where M = "X - 900000" and N = "X - 1000000"])
    show "0 \<le> x - 900000" "x - 900000 < 2 ^ 53" "0 \<le> x - 1000000" "x - 1000000 < 2 ^ 53"
      using assms by simp_all
    show "of_int (x - 900000) = X - 900000" "of_int (x - 1000000) = X - 1000000"
      by (simp_all add: X_def)
    show "(0::rat) \<le> 45000" by simp
    show "1 / 32 \<le> (X - 900000) * c015" using X by (simp add: c015_def)
    show "1 / 32 \<le> (X - 1000000) * c03" using X by (simp add: c03_def)
    show "45000 + ((X - 900000) * c015 + (X - 900000) * c015 / 2 ^ 53)
        \<le> 112500 + ((X - 1000000) * c03 - (X - 1000000) * c03 / 2 ^ 53)"
      using X by (simp add: c015_def c03_def field_simps)
  qed
qed

lemma region_8:
  assumes "1200000 < x" "x \<le> 1500000"
  shows "aff 90000 c02 (x - 1200000) \<le> aff 112500 c03 (x - 1000000)"
proof -
  define X :: rat where "X = of_int x"
  have X: "1200001 \<le> X" "X \<le> 1500000" using assms by (simp_all add: X_def)
  show ?thesis
  proof (rule aff_le_aff [where M = "X - 1200000" and N = "X - 1000000"])
    show "0 \<le> x - 1200000" "x - 1200000 < 2 ^ 53" "0 \<le> x - 1000000" "x - 1000000 < 2 ^ 53"
      using assms by simp_all
    show "of_int (x - 1200000) = X - 1200000" "of_int (x - 1000000) = X - 1000000"
      by (simp_all add: X_def)
    show "(0::rat) \<le> 90000" by simp
    show "1 / 32 \<le> (X - 1200000) * c02" using X by (simp add: c02_def)
    show "1 / 32 \<le> (X - 1000000) * c03" using X by (simp add: c03_def)
    show "90000 + ((X - 1200000) * c02 + (X - 1200000) * c02 / 2 ^ 53)
        \<le> 112500 + ((X - 1000000) * c03 - (X - 1000000) * c03 / 2 ^ 53)"
      using X by (simp add: c02_def c03_def field_simps)
  qed
qed

text \<open>In the top slabs the incomes may exceed \<open>2 ^ 53\<close>, so the conversion rounds as well.\<close>

lemma region_9:
  assumes "1500000 < x" "x \<le> 10 ^ 20"
  shows "aff 150000 c03 (x - 1500000) \<le> aff 112500 c03 (x - 1000000)"
proof -
  define M :: rat where "M = of_int (x - 1500000)"
  define A' where "A' = rnd M"
  define A where "A = rnd (M + 500000)"
  define P' where "P' = rnd (A' * c03)"
  define P where "P = rnd (A * c03)"
  have M: "1 \<le> M" "M \<le> 10 ^ 20" using assms by (simp_all add: M_def)
  have "1 / 32 \<le> M" "1 / 32 \<le> M + 500000" using M(1) by simp_all
  then have a: "M - M / 2 ^ 53 \<le> A'" "A' \<le> M + M / 2 ^ 53"
    "M + 500000 - (M + 500000) / 2 ^ 53 \<le> A"
    unfolding A'_def A_def by (simp_all only: rnd_relative)
  have "1 / 32 \<le> A' * c03" using M(1) a(1) by (simp add: c03_def field_simps)
  then have p': "P' \<le> A' * c03 + A' * c03 / 2 ^ 53" "0 \<le> P'"
    unfolding P'_def using rnd_nonneg [of "A' * c03"] rnd_relative(2) [of "A' * c03"]
    by simp_all
  have "1 / 32 \<le> A * c03" using M(1) a(3) by (simp add: c03_def field_simps)
  then have p: "A * c03 - A * c03 / 2 ^ 53 \<le> P"
    unfolding P_def by (simp only: rnd_relative)
  have "0 \<le> 150000 + P'" using p'(2) by simp
  moreover have "150000 + P' \<le> 112500 + P"
    using M a(2,3) p'(1) p by (simp add: c03_def field_simps)
  ultimately have "rnd (150000 + P') \<le> rnd (112500 + P)" by (rule rnd_mono)
  moreover have "of_int (x - 1000000) = M + 500000" by (simp add: M_def)
  ultimately show ?thesis
    by (simp add: aff_def lin_def P_def P'_def A_def A'_def M_def)
qed

lemma new_base_le_old_base:
  assumes "x \<le> 10 ^ 20"
  shows "new_base x \<le> old_base x"
proof -
  consider (r1) "x \<le> 300000" | (r3) "300000 < x" "x \<le> 500000"
    | (r4) "500000 < x" "x \<le> 600000" | (r5) "600000 < x" "x \<le> 900000"
    | (r6) "900000 < x" "x \<le> 1000000" | (r7) "1000000 < x" "x \<le> 1200000"
    | (r8) "1200000 < x" "x \<le> 1500000" | (r9) "1500000 < x"
    by linarith
  then show ?thesis
  proof cases
    case r1
    then show ?thesis using old_base_nonneg [of x] by (simp add: new_base_def)
  next
    case r3
    then show ?thesis
      using lin_mono [of "x - 300000" "x - 250000" c005] c_bounds(1)
      by (simp add: new_base_def old_base_def)
  next
    case r4
    then show ?thesis using region_4 [of x] by (simp add: new_base_def old_base_def)
  next
    case r5
    then show ?thesis using region_5 [of x] by (simp add: new_base_def old_base_def)
  next
    case r6
    then show ?thesis using region_6 [of x] by (simp add: new_base_def old_base_def)
  next
    case r7
    then show ?thesis using region_7 [of x] by (simp add: new_base_def old_base_def)
  next
    case r8
    then show ?thesis using region_8 [of x] by (simp add: new_base_def old_base_def)
  next
    case r9
    then show ?thesis using region_9 [of x] assms by (simp add: new_base_def old_base_def)
  qed
qed


lemma below_limit: "x \<le> 10 ^ 22 \<Longrightarrow> x - 1000000 < int_limit" "x \<le> 10 ^ 22 \<Longrightarrow> x - 1500000 < int_limit"
  by (simp_all add: int_limit_def)

text \<open>
  C10, as the code has it. For every income up to \<open>10 ^ 20\<close> both calculators return, the
  total under the new regime is at most the total under the old regime, and the comparison of
  the two breakdowns (zero deductions: both regimes tax the same amount) reports the new
  regime.
\<close>

theorem new_regime_not_dearer:
  assumes "x \<le> 10 ^ 20"
  shows "\<exists>ro rn. calculate_old_regime_tax x = Inr ro \<and> calculate_new_regime_tax x = Inr rn
    \<and> fle (total_tax rn) (total_tax ro)
    \<and> regime (get_better_regime ro rn) = ''New Regime''"
proof -
  have x: "x \<le> 10 ^ 22" using assms by simp
  have le: "gross (new_base x) \<le> gross (old_base x)"
    using new_base_nonneg new_base_le_old_base [OF assms] by (rule gross_mono)
  have "fle (total_tax (breakdown_of (new_base x))) (total_tax (breakdown_of (old_base x)))"
    using le by (simp add: breakdown_of_fields)
  moreover have "regime (get_better_regime (breakdown_of (old_base x)) (breakdown_of (new_base x)))
      = ''New Regime''"
    using le by (simp add: get_better_regime_def breakdown_of_fields)
  ultimately show ?thesis
    using old_value [OF below_limit(1) [OF x]] new_value [OF below_limit(2) [OF x]] by blast
qed

theorem new_regime_not_dearer_witness:
  "(600000::int) \<le> 10 ^ 20
    \<and> (\<exists>ro rn. calculate_old_regime_tax 600000 = Inr ro \<and> calculate_new_regime_tax 600000 = Inr rn
      \<and> fle (total_tax rn) (total_tax ro)
      \<and> regime (get_better_regime ro rn) = ''New Regime'')"
  using new_regime_not_dearer [of 600000] by simp

text \<open>
  At an income of \<open>5 * 10 ^ 21\<close> the two conversions and the two products round to the same
  floats, and adding 150,000 rounds up where adding 112,500 rounds down: the new regime comes
  out dearer, and the comparison reports the old regime.
\<close>

lemma rounding_at_5e21:
  "rnd 4999999999999999000000 = 4999999999999998951424"
  "rnd 4999999999999998500000 = 4999999999999998951424"
  "rnd (4999999999999998951424 * c03) = 1499999999999999737856"
  "rnd 1499999999999999850356 = 1499999999999999737856"
  "rnd 1499999999999999887856 = 1500000000000000000000"
  "rnd (1499999999999999737856 * c004) = 59999999999999991808"
  "rnd (1500000000000000000000 * c004) = 60000000000000000000"
  "rnd 1559999999999999729664 = 1559999999999999737856"
  "rnd 1560000000000000000000 = 1560000000000000000000"
  using rnd_near [of 72 4999999999999999000000 4768371582031249]
    rnd_near [of 72 4999999999999998500000 4768371582031249]
    rnd_near [of 70 "4999999999999998951424 * c03" 5722045898437499]
    rnd_near [of 70 1499999999999999850356 5722045898437499]
    rnd_near [of 70 1499999999999999887856 5722045898437500]
    rnd_near [of 65 "1499999999999999737856 * c004" 7324218749999999]
    rnd_near [of 65 "1500000000000000000000 * c004" 7324218750000000]
    rnd_near [of 70 1559999999999999729664 5950927734374999]
    rnd_near [of 70 1560000000000000000000 5950927734375000]
  by (simp_all add: c03_def c004_def)

lemma bases_at_5e21:
  "old_base (5 * 10 ^ 21) = 1499999999999999737856"
  "new_base (5 * 10 ^ 21) = 1500000000000000000000"
  by (simp_all add: old_base_def new_base_def aff_def lin_def rounding_at_5e21)

theorem new_regime_dearer_counterexample:
  "calculate_old_regime_tax (5 * 10 ^ 21)
      = Inr \<lparr>base_tax = Fin 1499999999999999737856, cess = Fin 59999999999999991808,
          total_tax = Fin 1559999999999999737856\<rparr>
    \<and> calculate_new_regime_tax (5 * 10 ^ 21)
      = Inr \<lparr>base_tax = Fin 1500000000000000000000, cess = Fin 60000000000000000000,
          total_tax = Fin 1560000000000000000000\<rparr>
    \<and> flt (Fin 1559999999999999737856) (Fin 1560000000000000000000)
    \<and> regime (get_better_regime
        \<lparr>base_tax = Fin 1499999999999999737856, cess = Fin 59999999999999991808,
          total_tax = Fin 1559999999999999737856\<rparr>
        \<lparr>base_tax = Fin 1500000000000000000000, cess = Fin 60000000000000000000,
          total_tax = Fin 1560000000000000000000\<rparr>) = ''Old Regime''"
proof -
  have x: "(5 * 10 ^ 21 :: int) \<le> 10 ^ 22" by simp
  have "calculate_old_regime_tax (5 * 10 ^ 21) = Inr (breakdown_of 1499999999999999737856)"
    using old_value [OF below_limit(1) [OF x]] by (simp only: bases_at_5e21)
  moreover have "calculate_new_regime_tax (5 * 10 ^ 21) = Inr (breakdown_of 1500000000000000000000)"
    using new_value [OF below_limit(2) [OF x]] by (simp only: bases_at_5e21)
  moreover have "breakdown_of 1499999999999999737856
      = \<lparr>base_tax = Fin 1499999999999999737856, cess = Fin 59999999999999991808,
          total_tax = Fin 1559999999999999737856\<rparr>"
    by (simp add: breakdown_of_def gross_def rounding_at_5e21)
  moreover have "breakdown_of 1500000000000000000000
      = \<lparr>base_tax = Fin 1500000000000000000000, cess = Fin 60000000000000000000,
          total_tax = Fin 1560000000000000000000\<rparr>"
    by (simp add: breakdown_of_def gross_def rounding_at_5e21)
  ultimately show ?thesis by (simp add: get_better_regime_def)
qed

section \<open>The reproducibility of the predictor\<close>

text \<open>
  C9. Whatever the state of the generator when the constructor is called, and whatever the
  library functions are, two constructions give the same training set, the same fitted tree
  and the same generator state afterwards, since the seed is set to 42 before the first draw;
  so the two instances answer every \<^verbatim>\<open>predict_regime\<close> call alike.
\<close>

theorem predictor_reproducible:
  "init lib g1 = init lib g2
    \<and> training_data (fst (init lib g1)) = training_data (fst (init lib g2))
    \<and> predict_regime lib (fst (init lib g1))
          income investments_80c health_insurance hra home_loan edu_loan age
        = predict_regime lib (fst (init lib g2))
          income investments_80c health_insurance hra home_loan edu_loan age"
proof -
  have "generate_training_data lib g1 = generate_training_data lib g2"
    by (simp add: generate_training_data_def)
  then have "init lib g1 = init lib g2" by (simp add: init_def)
  then show ?thesis by simp
qed


end
